theory Spec2Isabelle
  imports Complex_Main
begin

section \<open>Cell states and the grid\<close>

text \<open>
  The channel keeps a matrix of cell states (\<^verbatim>\<open>type GridType = CellState[][]\<close>).
  The enum of the immune-aware variant has five members; the older variant has the
  first four only.
\<close>

datatype CellState = DEAD | ALIVE | PENDING | INITIAL | IMMUNE

text \<open>
  A JavaScript array element is either a value or \<^verbatim>\<open>undefined\<close> (a hole, or a read
  past the end). An element is therefore a \<open>CellState option\<close>, \<open>None\<close> standing for
  \<^verbatim>\<open>undefined\<close>; a comparison \<^verbatim>\<open>grid[r][c] === CellState.X\<close> is \<open>\<dots> = Some X\<close>.
\<close>

type_synonym GridType = "CellState option list list"

datatype error = TypeError

text \<open>\<^verbatim>\<open>row[c]\<close> for a row and an index \<open>c \<ge> 0\<close>: \<^verbatim>\<open>undefined\<close> past the end.\<close>

definition rowGet :: "CellState option list \<Rightarrow> nat \<Rightarrow> CellState option" where
  "rowGet row c = (if c < length row then row ! c else None)"

text \<open>
  \<^verbatim>\<open>row[c] = v\<close>: inside the row the element is replaced; past the end JavaScript
  extends the array, leaving holes between the old end and the new element.
\<close>

definition rowSet :: "CellState option list \<Rightarrow> nat \<Rightarrow> CellState \<Rightarrow> CellState option list" where
  "rowSet row c v =
     (if c < length row then row[c := Some v]
      else row @ replicate (c - length row) None @ [Some v])"

text \<open>
  \<^verbatim>\<open>grid[r][c] = v\<close>. Every such assignment of the source sits behind a check
  \<^verbatim>\<open>r < grid.length\<close> (or inside a loop over the rows), so \<open>grid ! r\<close> is a row.
\<close>

definition setCell :: "GridType \<Rightarrow> nat \<Rightarrow> nat \<Rightarrow> CellState \<Rightarrow> GridType" where
  "setCell grid r c v = grid[r := rowSet (grid ! r) c v]"

text \<open>
  The state of the cell at \<open>(r, c)\<close> as an observer of the grid sees it: \<open>None\<close> when the
  position is outside the grid.
\<close>

definition cellAt :: "GridType \<Rightarrow> int \<Rightarrow> int \<Rightarrow> CellState option" where
  "cellAt grid r c =
     (if 0 \<le> r \<and> r < int (length grid) \<and> 0 \<le> c then rowGet (grid ! nat r) (nat c) else None)"

text \<open>A grid is rectangular when all its rows have the length of the first one.\<close>

definition rect :: "GridType \<Rightarrow> bool" where
  "rect grid = (\<forall>row \<in> set grid. length row = length (grid ! 0))"

section \<open>The generation step\<close>

text \<open>
  \<^verbatim>\<open>countLiveNeighbors\<close>: the two nested loops visit the offsets in this order; the
  body skips \<open>(0, 0)\<close>. The bounds check reads \<^verbatim>\<open>grid[0].length\<close> only after
  \<^verbatim>\<open>r < grid.length\<close> has passed, when the grid has a first row.
\<close>

definition neighborOffsets :: "(int \<times> int) list" where
  "neighborOffsets = concat (map (\<lambda>i. map (\<lambda>j. (i, j)) [-1, 0, 1]) [-1, 0, 1])"

definition countBody :: "GridType \<Rightarrow> int \<Rightarrow> int \<Rightarrow> nat \<Rightarrow> int \<times> int \<Rightarrow> nat" where
  "countBody grid row col count ij =
     (case ij of (i, j) \<Rightarrow>
        if i = 0 \<and> j = 0 then count
        else let r = row + i; c = col + j in
          if r \<ge> 0 \<and> r < int (length grid) \<and> c \<ge> 0 \<and> c < int (length (grid ! 0))
             \<and> rowGet (grid ! nat r) (nat c) = Some ALIVE
          then count + 1 else count)"

definition countLiveNeighbors :: "GridType \<Rightarrow> int \<Rightarrow> int \<Rightarrow> nat" where
  "countLiveNeighbors grid row col = foldl (countBody grid row col) 0 neighborOffsets"

text \<open>
  \<^verbatim>\<open>updateGrid\<close>: \<open>newGrid\<close> starts as a copy of the grid, row by row; the loop body
  reads \<open>grid\<close> and writes \<open>newGrid\<close>.
\<close>

definition updateBody :: "GridType \<Rightarrow> nat \<Rightarrow> GridType \<Rightarrow> nat \<Rightarrow> GridType" where
  "updateBody grid i newGrid j =
     (if rowGet (grid ! i) j = Some PENDING \<or> rowGet (grid ! i) j = Some INITIAL
         \<or> rowGet (grid ! i) j = Some IMMUNE
      then newGrid
      else let liveNeighbors = countLiveNeighbors grid (int i) (int j) in
        if rowGet (grid ! i) j = Some ALIVE \<and> (liveNeighbors < 2 \<or> liveNeighbors > 3)
        then setCell newGrid i j DEAD
        else if rowGet (grid ! i) j = Some DEAD \<and> liveNeighbors = 3
        then setCell newGrid i j ALIVE
        else newGrid)"

definition updateRow :: "GridType \<Rightarrow> GridType \<Rightarrow> nat \<Rightarrow> GridType" where
  "updateRow grid newGrid i = foldl (updateBody grid i) newGrid [0 ..< length (grid ! i)]"

definition updateGrid :: "GridType \<Rightarrow> GridType" where
  "updateGrid grid = foldl (updateRow grid) (map (\<lambda>row. row) grid) [0 ..< length grid]"

text \<open>
  The older variant of \<^verbatim>\<open>updateGrid\<close> skips \<^verbatim>\<open>PENDING\<close> and \<^verbatim>\<open>INITIAL\<close> cells only (its
  enum has no \<^verbatim>\<open>IMMUNE\<close>).
\<close>

definition updateBody_v1 :: "GridType \<Rightarrow> nat \<Rightarrow> GridType \<Rightarrow> nat \<Rightarrow> GridType" where
  "updateBody_v1 grid i newGrid j =
     (if rowGet (grid ! i) j = Some PENDING \<or> rowGet (grid ! i) j = Some INITIAL
      then newGrid
      else let liveNeighbors = countLiveNeighbors grid (int i) (int j) in
        if rowGet (grid ! i) j = Some ALIVE \<and> (liveNeighbors < 2 \<or> liveNeighbors > 3)
        then setCell newGrid i j DEAD
        else if rowGet (grid ! i) j = Some DEAD \<and> liveNeighbors = 3
        then setCell newGrid i j ALIVE
        else newGrid)"

definition updateGrid_v1 :: "GridType \<Rightarrow> GridType" where
  "updateGrid_v1 grid =
     foldl (\<lambda>newGrid i. foldl (updateBody_v1 grid i) newGrid [0 ..< length (grid ! i)])
       (map (\<lambda>row. row) grid) [0 ..< length grid]"

text \<open>\<^verbatim>\<open>setupGrid\<close>: \<^verbatim>\<open>CONFIG.ROWS\<close> rows of \<^verbatim>\<open>CONFIG.COLS\<close> dead cells.\<close>

definition ROWS :: int where "ROWS = 55"
definition COLS :: int where "COLS = 182"

definition setupGrid :: GridType where
  "setupGrid = replicate (nat ROWS) (replicate (nat COLS) (Some DEAD))"

section \<open>The rule of the generation step, as the specification words it\<close>

text \<open>
  The state the rule gives cell \<open>(i, j)\<close> from the old grid alone: what one pass of the
  loop body of \<^verbatim>\<open>updateGrid\<close> leaves there.
\<close>

definition nextCell :: "GridType \<Rightarrow> nat \<Rightarrow> nat \<Rightarrow> CellState option" where
  "nextCell grid i j =
     (let s = rowGet (grid ! i) j; n = countLiveNeighbors grid (int i) (int j) in
      if s = Some ALIVE \<and> (n < 2 \<or> n > 3) then Some DEAD
      else if s = Some DEAD \<and> n = 3 then Some ALIVE
      else s)"

text \<open>
  The eight positions around \<open>(r, c)\<close>, and the number of them that hold an \<^verbatim>\<open>ALIVE\<close>
  cell. A position outside the grid holds no cell (\<open>cellAt\<close> is \<open>None\<close> there), so it is
  not counted and nothing wraps around.
\<close>

definition surrounding :: "int \<Rightarrow> int \<Rightarrow> (int \<times> int) list" where
  "surrounding r c =
     [(r - 1, c - 1), (r - 1, c), (r - 1, c + 1),
      (r, c - 1), (r, c + 1),
      (r + 1, c - 1), (r + 1, c), (r + 1, c + 1)]"

definition liveNeighbors :: "GridType \<Rightarrow> int \<Rightarrow> int \<Rightarrow> nat" where
  "liveNeighbors grid r c =
     length (filter (\<lambda>(r', c'). cellAt grid r' c' = Some ALIVE) (surrounding r c))"

text \<open>The protected states: \<^verbatim>\<open>PENDING\<close>, \<^verbatim>\<open>INITIAL\<close> and \<^verbatim>\<open>IMMUNE\<close>.\<close>

definition protected :: "CellState option \<Rightarrow> bool" where
  "protected s = (s = Some PENDING \<or> s = Some INITIAL \<or> s = Some IMMUNE)"

text \<open>A small grid with cells of every state, for concrete instances.\<close>

definition demoGrid :: GridType where
  "demoGrid = [[Some DEAD, Some ALIVE, Some DEAD, Some PENDING],
               [Some IMMUNE, Some ALIVE, Some DEAD, Some ALIVE],
               [Some DEAD, Some ALIVE, Some INITIAL, Some ALIVE]]"

section \<open>The blinker\<close>

text \<open>
  A \<open>rows \<times> cols\<close> grid that is dead except for three \<^verbatim>\<open>ALIVE\<close> cells in a row
  (\<open>blinkerH\<close>) or in a column (\<open>blinkerV\<close>), centred on \<open>(r, c)\<close>.
\<close>

definition blinkerH :: "nat \<Rightarrow> nat \<Rightarrow> nat \<Rightarrow> nat \<Rightarrow> GridType" where
  "blinkerH rows cols r c =
     map (\<lambda>i. map (\<lambda>j. if i = r \<and> (j + 1 = c \<or> j = c \<or> j = c + 1) then Some ALIVE else Some DEAD)
                [0 ..< cols]) [0 ..< rows]"

definition blinkerV :: "nat \<Rightarrow> nat \<Rightarrow> nat \<Rightarrow> nat \<Rightarrow> GridType" where
  "blinkerV rows cols r c =
     map (\<lambda>i. map (\<lambda>j. if j = c \<and> (i + 1 = r \<or> i = r \<or> i = r + 1) then Some ALIVE else Some DEAD)
                [0 ..< cols]) [0 ..< rows]"

section \<open>The glyph tables\<close>

text \<open>
  A glyph is the list of the \<open>(row, col)\<close> offsets of its lit pixels, in the order of the
  source's array literal. \<^verbatim>\<open>digits\<close> is an object with the keys \<open>0\<close> to \<open>9\<close>:
  \<open>digitsEntries\<close> lists its entries in the order \<^verbatim>\<open>Object.entries\<close> yields them
  (ascending keys, which is also the order of the literal), and \<open>digits\<close> is the lookup
  \<^verbatim>\<open>digits[d]\<close>, \<open>None\<close> for a key the object does not have.
\<close>

type_synonym glyph = "(int \<times> int) list"

definition digitsEntries :: "(nat \<times> glyph) list" where
  "digitsEntries =
    [(0, [(1, 1), (1, 2), (1, 3), (2, 1), (2, 3), (3, 1), (3, 3), (4, 1),
          (4, 3), (5, 1), (5, 2), (5, 3)]),
     (1, [(1, 1), (2, 1), (3, 1), (4, 1), (5, 1)]),
     (2, [(1, 1), (1, 2), (1, 3), (2, 3), (3, 1), (3, 2), (3, 3), (4, 1),
          (5, 1), (5, 2), (5, 3)]),
     (3, [(1, 1), (1, 2), (1, 3), (2, 3), (3, 1), (3, 2), (3, 3), (4, 3),
          (5, 1), (5, 2), (5, 3)]),
     (4, [(1, 1), (1, 3), (2, 1), (2, 3), (3, 1), (3, 2), (3, 3), (4, 3),
          (5, 3)]),
     (5, [(1, 1), (1, 2), (1, 3), (2, 1), (3, 1), (3, 2), (3, 3), (4, 3),
          (5, 1), (5, 2), (5, 3)]),
     (6, [(1, 1), (1, 2), (1, 3), (2, 1), (3, 1), (3, 2), (3, 3), (4, 1),
          (4, 3), (5, 1), (5, 2), (5, 3)]),
     (7, [(1, 1), (1, 2), (1, 3), (2, 3), (3, 3), (4, 3), (5, 3)]),
     (8, [(1, 1), (1, 2), (1, 3), (2, 1), (2, 3), (3, 1), (3, 2), (3, 3),
          (4, 1), (4, 3), (5, 1), (5, 2), (5, 3)]),
     (9, [(1, 1), (1, 2), (1, 3), (2, 1), (2, 3), (3, 1), (3, 2), (3, 3),
          (4, 3), (5, 3)])]"

definition digits :: "nat \<rightharpoonup> glyph" where
  "digits = map_of digitsEntries"

definition digitsWidths :: "nat \<rightharpoonup> int" where
  "digitsWidths = map_of [(0, 3), (1, 1), (2, 3), (3, 3), (4, 3), (5, 3), (6, 3), (7, 3), (8, 3), (9, 3)]"

text \<open>\<^verbatim>\<open>symbols[0]\<close>, the small currency sign.\<close>

definition symbols0 :: glyph where
  "symbols0 =
    [(1, 2), (2, 1), (2, 2), (2, 3), (3, 1), (4, 1), (4, 2), (4, 3), (5, 3),
     (6, 1), (6, 2), (6, 3), (7, 2)]"

text \<open>
  \<^verbatim>\<open>createDoubledDigits\<close> and \<^verbatim>\<open>createDoubledSymbol\<close>: \<^verbatim>\<open>flatMap\<close> replaces every pixel by
  four; the loop over the entries fills the object \<open>doubled\<close> key by key.
\<close>

definition doublePixel :: "int \<times> int \<Rightarrow> glyph" where
  "doublePixel p =
     (case p of (row, col) \<Rightarrow>
        [(row * 2 - 1, col * 2 - 1), (row * 2 - 1, col * 2), (row * 2, col * 2 - 1), (row * 2, col * 2)])"

definition flatMap :: "('a \<Rightarrow> 'b list) \<Rightarrow> 'a list \<Rightarrow> 'b list" where
  "flatMap f xs = concat (map f xs)"

definition createDoubledDigits :: "nat \<rightharpoonup> glyph" where
  "createDoubledDigits =
     foldl (\<lambda>doubled (digit, coords). doubled(digit \<mapsto> flatMap doublePixel coords))
       Map.empty digitsEntries"

definition digitsDoubled :: "nat \<rightharpoonup> glyph" where
  "digitsDoubled = createDoubledDigits"

definition digitsDoubledWidths :: "nat \<rightharpoonup> int" where
  "digitsDoubledWidths =
     map_of [(0, 6), (1, 2), (2, 6), (3, 6), (4, 6), (5, 6), (6, 6), (7, 6), (8, 6), (9, 6)]"

definition createDoubledSymbol :: glyph where
  "createDoubledSymbol = flatMap doublePixel symbols0"

definition symbolDoubled :: glyph where
  "symbolDoubled = createDoubledSymbol"

definition symbolDoubledWidth :: int where
  "symbolDoubledWidth = 6"

text \<open>The 2x2 block of offsets that stands for the pixel \<open>(r, c)\<close> of a small glyph.\<close>

definition block2x2 :: "int \<times> int \<Rightarrow> (int \<times> int) set" where
  "block2x2 p = {(2 * fst p - 1, 2 * snd p - 1), (2 * fst p - 1, 2 * snd p),
                 (2 * fst p, 2 * snd p - 1), (2 * fst p, 2 * snd p)}"

section \<open>Tracked cells\<close>

text \<open>
  \<^verbatim>\<open>interface ImmuneCell { row; col }\<close> and
  \<^verbatim>\<open>interface PendingCell { row; col; timeout }\<close>. The timer handle is a number, \<open>None\<close>
  standing for the \<^verbatim>\<open>null\<close> the stamping functions store before the timer is set.
\<close>

record ImmuneCell =
  row :: int
  col :: int

record PendingCell = ImmuneCell +
  timeout :: "nat option"

definition newPendingCell :: "int \<Rightarrow> int \<Rightarrow> PendingCell" where
  "newPendingCell r c = \<lparr>row = r, col = c, timeout = None\<rparr>"

definition newImmuneCell :: "int \<Rightarrow> int \<Rightarrow> ImmuneCell" where
  "newImmuneCell r c = \<lparr>row = r, col = c\<rparr>"

section \<open>Stamping\<close>

text \<open>
  \<^verbatim>\<open>Number(digit[i])\<close> for one character of the string: the digit's value, \<open>0\<close> for a
  white-space character (JavaScript converts a blank string to \<open>0\<close>), and \<^verbatim>\<open>NaN\<close>, here
  \<open>None\<close>, for any other character. Strings are lists of code units below 256; the
  strings the channel stamps are printed numbers, which are ASCII.
\<close>

definition jsWhitespace :: "char list" where
  "jsWhitespace = map char_of [9, 10, 11, 12, 13, 32, 160 :: nat]"

definition Number1 :: "char \<Rightarrow> nat option" where
  "Number1 ch =
     (if ch \<in> set ''0123456789'' then Some (of_char ch - 48)
      else if ch \<in> set jsWhitespace then Some 0
      else None)"

text \<open>
  \<^verbatim>\<open>(widths[currentDigit] || dflt)\<close>: the default stands in when the key is missing
  (also for \<^verbatim>\<open>NaN\<close>) and when the width is \<open>0\<close>.
\<close>

definition widthOr :: "(nat \<rightharpoonup> int) \<Rightarrow> nat option \<Rightarrow> int \<Rightarrow> int" where
  "widthOr widths currentDigit dflt =
     (case currentDigit of
        None \<Rightarrow> dflt
      | Some d \<Rightarrow> (case widths d of None \<Rightarrow> dflt | Some w \<Rightarrow> if w = 0 then dflt else w))"

text \<open>
  The pixel loop that the stamping functions share, up to the state written (\<open>st\<close>), the
  record pushed (\<open>mk\<close>) and the offsets added to the glyph's \<open>(row, col)\<close>:
  \<^verbatim>\<open>
  for (const [row, col] of glyph) {
    const cellRow = row + dr;
    const cellCol = col + dc;
    if (cellCol >= 0 && cellRow >= 0 && cellCol < grid[0].length && cellRow < grid.length) {
      grid[cellRow][cellCol] = st;
      cells.push(mk(cellRow, cellCol));
    }
  }
  \<close>
  The check reads \<^verbatim>\<open>grid[0].length\<close> as soon as both coordinates are non-negative; on a
  grid without rows \<^verbatim>\<open>grid[0]\<close> is \<^verbatim>\<open>undefined\<close> and the read throws a \<^verbatim>\<open>TypeError\<close>.
\<close>

fun stampPixels ::
  "CellState \<Rightarrow> (int \<Rightarrow> int \<Rightarrow> 'c) \<Rightarrow> int \<Rightarrow> int \<Rightarrow> glyph \<Rightarrow> GridType \<times> 'c list
     \<Rightarrow> error + GridType \<times> 'c list" where
  "stampPixels st mk dr dc [] s = Inr s"
| "stampPixels st mk dr dc ((prow, pcol) # ps) (grid, cells) =
     (let cellRow = prow + dr; cellCol = pcol + dc in
      if cellCol \<ge> 0 \<and> cellRow \<ge> 0 then
        (case grid of
           [] \<Rightarrow> Inl TypeError
         | row0 # _ \<Rightarrow>
             if cellCol < int (length row0) \<and> cellRow < int (length grid)
             then stampPixels st mk dr dc ps
                    (setCell grid (nat cellRow) (nat cellCol) st, cells @ [mk cellRow cellCol])
             else stampPixels st mk dr dc ps (grid, cells))
      else stampPixels st mk dr dc ps (grid, cells))"

text \<open>
  The loop over the characters of the string, shared likewise up to the tables and
  offsets:
  \<^verbatim>\<open>
  for (let i = 0; i < digit.length; i++) {
    const currentDigit = Number(digit[i]);
    if (currentDigit in table) { (the pixel loop, with dc = currentCol + dcol) }
    currentCol += (widths[currentDigit] || dflt) + 1;
  }
  \<close>
\<close>

fun digitsLoop ::
  "CellState \<Rightarrow> (int \<Rightarrow> int \<Rightarrow> 'c) \<Rightarrow> (nat \<rightharpoonup> glyph) \<Rightarrow> (nat \<rightharpoonup> int) \<Rightarrow> int \<Rightarrow> int \<Rightarrow> int
     \<Rightarrow> string \<Rightarrow> int \<Rightarrow> GridType \<times> 'c list \<Rightarrow> error + GridType \<times> 'c list" where
  "digitsLoop st mk table widths dflt dr dcol [] currentCol s = Inr s"
| "digitsLoop st mk table widths dflt dr dcol (ch # rest) currentCol s =
     (let currentDigit = Number1 ch in
      case (case currentDigit of
              None \<Rightarrow> Inr s
            | Some d \<Rightarrow>
                (case table d of
                   None \<Rightarrow> Inr s
                 | Some g \<Rightarrow> stampPixels st mk dr (currentCol + dcol) g s)) of
        Inl e \<Rightarrow> Inl e
      | Inr s' \<Rightarrow>
          digitsLoop st mk table widths dflt dr dcol rest
            (currentCol + (widthOr widths currentDigit dflt + 1)) s')"

text \<open>
  \<^verbatim>\<open>setDigitAsPending(grid, digit, startRow, startCol, pendingCells)\<close>: the currency sign
  one row above the digits, then the digits from four columns further right. The
  function returns nothing; the model returns the grid and the array it appended to.
\<close>

definition setDigitAsPending ::
  "GridType \<Rightarrow> string \<Rightarrow> int \<Rightarrow> int \<Rightarrow> PendingCell list \<Rightarrow> error + GridType \<times> PendingCell list" where
  "setDigitAsPending grid digit startRow startCol pendingCells =
     (let currentCol = startCol in
      case stampPixels PENDING newPendingCell (startRow - 1) currentCol symbols0 (grid, pendingCells) of
        Inl e \<Rightarrow> Inl e
      | Inr s \<Rightarrow>
          digitsLoop PENDING newPendingCell digits digitsWidths 3 startRow 0 digit (currentCol + 4) s)"

text \<open>
  The same layout without a grid: the absolute position of every pixel of the currency
  sign and of the digits, in the order the loops visit them, whether it falls inside a
  grid or not.
\<close>

definition shift :: "int \<Rightarrow> int \<Rightarrow> glyph \<Rightarrow> (int \<times> int) list" where
  "shift dr dc g = map (\<lambda>(prow, pcol). (prow + dr, pcol + dc)) g"

fun digitsRun ::
  "(nat \<rightharpoonup> glyph) \<Rightarrow> (nat \<rightharpoonup> int) \<Rightarrow> int \<Rightarrow> int \<Rightarrow> int \<Rightarrow> string \<Rightarrow> int \<Rightarrow> (int \<times> int) list" where
  "digitsRun table widths dflt dr dcol [] currentCol = []"
| "digitsRun table widths dflt dr dcol (ch # rest) currentCol =
     (case Number1 ch of
        None \<Rightarrow> []
      | Some d \<Rightarrow> (case table d of None \<Rightarrow> [] | Some g \<Rightarrow> shift dr (currentCol + dcol) g))
     @ digitsRun table widths dflt dr dcol rest (currentCol + (widthOr widths (Number1 ch) dflt + 1))"

definition pendingFootprint :: "string \<Rightarrow> int \<Rightarrow> int \<Rightarrow> (int \<times> int) list" where
  "pendingFootprint digit startRow startCol =
     shift (startRow - 1) startCol symbols0
     @ digitsRun digits digitsWidths 3 startRow 0 digit (startCol + 4)"

text \<open>The bounds check of the stamping loops, and the positions of a list that pass it.\<close>

definition inGrid :: "GridType \<Rightarrow> int \<times> int \<Rightarrow> bool" where
  "inGrid grid p =
     (case p of (cellRow, cellCol) \<Rightarrow>
        cellCol \<ge> 0 \<and> cellRow \<ge> 0 \<and> cellCol < int (length (grid ! 0)) \<and> cellRow < int (length grid))"

definition writeAll :: "CellState \<Rightarrow> (int \<times> int) list \<Rightarrow> GridType \<Rightarrow> GridType" where
  "writeAll st ps grid = foldl (\<lambda>g (r, c). setCell g (nat r) (nat c) st) grid ps"

section \<open>Numbers\<close>

text \<open>
  A JavaScript number is \<^verbatim>\<open>NaN\<close>, an infinity or a finite value; the finite values are
  kept as rationals (every double is one; \<open>+0\<close> and \<open>-0\<close>, which nothing in the channel
  tells apart, are both \<open>Num 0\<close>). A value that may be missing (\<^verbatim>\<open>undefined\<close>) is an
  option.
\<close>

datatype JSNumber = NaN | NegInfinity | Num rat | Infinity

text \<open>
  \<^verbatim>\<open>Math.floor(x)\<close>: \<^verbatim>\<open>undefined\<close> converts to \<^verbatim>\<open>NaN\<close>; the floor of a finite double is exact.
\<close>

definition Math_floor :: "JSNumber option \<Rightarrow> JSNumber" where
  "Math_floor x =
     (case x of
        None \<Rightarrow> NaN
      | Some (Num q) \<Rightarrow> Num (of_int \<lfloor>q\<rfloor>)
      | Some y \<Rightarrow> y)"




text \<open>
  The digits that the built-in \<^verbatim>\<open>String\<close> prints for a number are not modelled: every
  function below that prints a number takes \<^verbatim>\<open>String\<close> as its first parameter
  (\<open>String'\<close>), and what is proved of it holds whatever that function prints.

  For the concrete instances, \<open>smallString\<close> gives what \<^verbatim>\<open>String\<close> prints for \<^verbatim>\<open>NaN\<close>, for the
  infinities and for a whole number of magnitude below \<open>2\<^sup>5\<^sup>3\<close>: its decimal digits, after
  a minus sign when it is negative. It is the empty string for every other number,
  where JavaScript prints a fraction, rounded digits or an exponent; the instances use
  no such number.
\<close>

fun decimal :: "nat \<Rightarrow> string" where
  "decimal n =
     (if n < 10 then [char_of (48 + n)] else decimal (n div 10) @ [char_of (48 + n mod 10)])"

definition smallString :: "JSNumber \<Rightarrow> string" where
  "smallString x =
     (case x of
        NaN \<Rightarrow> ''NaN''
      | NegInfinity \<Rightarrow> ''-Infinity''
      | Infinity \<Rightarrow> ''Infinity''
      | Num q \<Rightarrow>
          if of_int \<lfloor>q\<rfloor> = q \<and> \<bar>q\<bar> < 2 ^ 53
          then (if q < 0 then CHR ''-'' # decimal (nat (- \<lfloor>q\<rfloor>)) else decimal (nat \<lfloor>q\<rfloor>))
          else [])"

section \<open>The immune total\<close>

text \<open>
  \<^verbatim>\<open>setTotalAsImmune(grid, total, previousImmuneCells)\<close>, with the built-in \<^verbatim>\<open>String\<close> as
  its first parameter. First the loop that clears the
  previous cells; its check reads \<^verbatim>\<open>grid[0].length\<close> only after \<^verbatim>\<open>cell.row < grid.length\<close>
  has passed.
\<close>

definition clearBody :: "GridType \<Rightarrow> ImmuneCell \<Rightarrow> GridType" where
  "clearBody grid cell =
     (if row cell \<ge> 0 \<and> row cell < int (length grid) \<and> col cell \<ge> 0
         \<and> col cell < int (length (grid ! 0))
      then setCell grid (nat (row cell)) (nat (col cell)) DEAD
      else grid)"

definition clearPrevious :: "GridType \<Rightarrow> ImmuneCell list \<Rightarrow> GridType" where
  "clearPrevious grid previousImmuneCells = foldl clearBody grid previousImmuneCells"

text \<open>
  The width loop, then the position in the bottom-right corner (computed from
  \<^verbatim>\<open>CONFIG.ROWS\<close> and \<^verbatim>\<open>CONFIG.COLS\<close>, not from the grid), the doubled currency sign and
  the doubled digits, two rows lower (\<open>digitVerticalOffset\<close>).
\<close>

definition immuneTotalWidth :: "string \<Rightarrow> int" where
  "immuneTotalWidth digit =
     (let digitSpacing = 1 in
      foldl (\<lambda>totalWidth ch. totalWidth + (widthOr digitsDoubledWidths (Number1 ch) 6 + digitSpacing))
        (symbolDoubledWidth + digitSpacing) digit
      - digitSpacing)"

definition setTotalAsImmune ::
  "(JSNumber \<Rightarrow> string) \<Rightarrow> GridType \<Rightarrow> JSNumber \<Rightarrow> ImmuneCell list
     \<Rightarrow> error + GridType \<times> ImmuneCell list" where
  "setTotalAsImmune String' grid total' previousImmuneCells =
     (let grid1 = clearPrevious grid previousImmuneCells;
          digit = String' (Math_floor (Some total'));
          digitSpacing = 1;
          dollarSignHeight = 14;
          digitHeight = 10;
          totalHeight = max dollarSignHeight digitHeight;
          totalWidth = immuneTotalWidth digit;
          paddingRight = 1;
          paddingBottom = 1;
          startRow = ROWS - totalHeight - paddingBottom;
          startCol = COLS - totalWidth - paddingRight;
          currentCol = startCol;
          digitVerticalOffset = (dollarSignHeight - digitHeight) div 2
      in
      case stampPixels IMMUNE newImmuneCell (startRow - 1) (currentCol - 1) symbolDoubled (grid1, []) of
        Inl e \<Rightarrow> Inl e
      | Inr s \<Rightarrow>
          digitsLoop IMMUNE newImmuneCell digitsDoubled digitsDoubledWidths 6
            (startRow - 1 + digitVerticalOffset) (- 1) digit
            (currentCol + (symbolDoubledWidth + digitSpacing)) s)"

text \<open>
  The positions of the pixels of the immune total printed as \<open>digit\<close>, whether inside a
  grid or not: the doubled currency sign, then the doubled glyph of every character
  that is a digit, laid out as \<^verbatim>\<open>setTotalAsImmune\<close> lays them out.
\<close>

definition immuneFootprint :: "string \<Rightarrow> (int \<times> int) list" where
  "immuneFootprint digit =
     (let digitSpacing = 1;
          dollarSignHeight = 14;
          digitHeight = 10;
          totalHeight = max dollarSignHeight digitHeight;
          totalWidth = immuneTotalWidth digit;
          paddingRight = 1;
          paddingBottom = 1;
          startRow = ROWS - totalHeight - paddingBottom;
          startCol = COLS - totalWidth - paddingRight;
          currentCol = startCol;
          digitVerticalOffset = (dollarSignHeight - digitHeight) div 2
      in shift (startRow - 1) (currentCol - 1) symbolDoubled
         @ digitsRun digitsDoubled digitsDoubledWidths 6 (startRow - 1 + digitVerticalOffset) (- 1)
             digit (currentCol + (symbolDoubledWidth + digitSpacing)))"

definition coords :: "ImmuneCell \<Rightarrow> int \<times> int" where
  "coords cell = (row cell, col cell)"

text \<open>The immune total's layout with its numbers worked out.\<close>

section \<open>The channel's state and its timers\<close>

text \<open>
  The component keeps the grid and the tracked cells in refs. A timer set with
  \<^verbatim>\<open>setTimeout\<close> is recorded with its handle, its delay in milliseconds, the state its
  callback compares the cell with, and the cell's position.
\<close>

record Timer =
  handle :: nat
  delay :: nat
  expects :: CellState
  trow :: int
  tcol :: int

text \<open>
  The immune-aware variant also keeps the total it displays, the total it counts
  towards, and the interval that does the counting. Of a running interval the model
  keeps the two values its callback closes over; the callback itself, which eases the
  displayed value in floating point, is not modelled.
\<close>

record Tween =
  startValue :: JSNumber
  endValue :: JSNumber

record Channel =
  gridRef :: GridType
  pendingCellsRef :: "PendingCell list"
  immuneCellsRef :: "ImmuneCell list"
  hasShownInitialTotal :: bool
  lastDisplayedTotal :: JSNumber
  targetTotal :: JSNumber
  activeTween :: "Tween option"
  timers :: "Timer list"
  nextHandle :: nat



text \<open>
  The callback both handlers pass to \<^verbatim>\<open>setTimeout\<close>, with \<open>stamped\<close> the state the cell
  was stamped with (\<^verbatim>\<open>PENDING\<close> in the donation handler, \<^verbatim>\<open>INITIAL\<close> in the total effect):
  \<^verbatim>\<open>
  if (gridRef.current[cell.row][cell.col] === stamped) {
    gridRef.current[cell.row][cell.col] = CellState.ALIVE;
  }
  pendingCellsRef.current = pendingCellsRef.current.filter(
    (c) => !(c.row === cell.row && c.col === cell.col));
  \<close>
  \<^verbatim>\<open>gridRef.current[cell.row]\<close> is \<^verbatim>\<open>undefined\<close> for a row outside the grid, and reading a
  column of it throws; a column outside the row reads \<^verbatim>\<open>undefined\<close>, which equals no state.
\<close>

definition expireCell :: "CellState \<Rightarrow> PendingCell \<Rightarrow> Channel \<Rightarrow> error + Channel" where
  "expireCell stamped cell ch =
     (if 0 \<le> row cell \<and> row cell < int (length (gridRef ch)) then
        Inr (ch\<lparr>gridRef :=
                   (if 0 \<le> col cell
                       \<and> rowGet (gridRef ch ! nat (row cell)) (nat (col cell)) = Some stamped
                    then setCell (gridRef ch) (nat (row cell)) (nat (col cell)) ALIVE
                    else gridRef ch),
                 pendingCellsRef :=
                   filter (\<lambda>c. \<not> (row c = row cell \<and> col c = col cell)) (pendingCellsRef ch)\<rparr>)
      else Inl TypeError)"

definition pendingTimeout :: "PendingCell \<Rightarrow> Channel \<Rightarrow> error + Channel" where
  "pendingTimeout = expireCell PENDING"

definition initialTimeout :: "PendingCell \<Rightarrow> Channel \<Rightarrow> error + Channel" where
  "initialTimeout = expireCell INITIAL"

text \<open>
  A channel over \<open>demoGrid\<close> that tracks two cells: \<open>(0, 3)\<close>, still \<^verbatim>\<open>PENDING\<close>, and
  \<open>(0, 0)\<close>, which something else has set to \<^verbatim>\<open>DEAD\<close> since it was stamped.
\<close>

definition demoChannel :: Channel where
  "demoChannel =
     \<lparr>gridRef = demoGrid,
      pendingCellsRef = [\<lparr>row = 0, col = 3, timeout = Some 0\<rparr>, \<lparr>row = 0, col = 0, timeout = Some 1\<rparr>],
      immuneCellsRef = [], hasShownInitialTotal = False,
      lastDisplayedTotal = Num (- 1), targetTotal = Num 0, activeTween = None,
      timers = [], nextHandle = 2\<rparr>"

section \<open>Choosing where a donation goes\<close>

text \<open>
  \<^verbatim>\<open>Math.random()\<close> and the floating-point product are not modelled: the searches take
  as a parameter the function \<open>floorRandom\<close>, where \<open>floorRandom k m\<close> is the value of
  \<^verbatim>\<open>Math.floor(Math.random() * m)\<close> at the \<open>k\<close>-th call of \<^verbatim>\<open>Math.random\<close> (counted from 0).
  The loop draws twice each time round, so its candidate number \<open>k\<close>,
  \<^verbatim>\<open>(Math.floor(Math.random() * Math.max(1, maxX)), Math.floor(Math.random() * Math.max(1, maxY)))\<close>,
  uses the calls \<open>2k\<close> and \<open>2k + 1\<close>.
\<close>

definition candidate :: "(nat \<Rightarrow> int \<Rightarrow> int) \<Rightarrow> int \<Rightarrow> int \<Rightarrow> nat \<Rightarrow> int \<times> int" where
  "candidate floorRandom maxX maxY k =
     (floorRandom (2 * k) (max 1 maxX), floorRandom (2 * k + 1) (max 1 maxY))"

text \<open>
  \<^verbatim>\<open>wouldOverlapImmune(testStartX, testStartY)\<close> of the immune-aware variant (\<open>rawAmount\<close>
  is \<^verbatim>\<open>donation.rawAmount\<close>, \<open>None\<close> when the event carries no amount): the set of
  the immune cells' positions (the source keys it by the string \<^verbatim>\<open>row,col\<close>), then the
  pixels of the currency sign and of the digits, answering \<^verbatim>\<open>true\<close> at the first hit.
\<close>

fun overlapDigits :: "(int \<times> int) set \<Rightarrow> int \<Rightarrow> string \<Rightarrow> int \<Rightarrow> bool" where
  "overlapDigits immuneSet testStartX [] currentCol = False"
| "overlapDigits immuneSet testStartX (ch # rest) currentCol =
     (let currentDigit = Number1 ch in
      if (case currentDigit of
            None \<Rightarrow> False
          | Some d \<Rightarrow>
              (case digits d of
                 None \<Rightarrow> False
               | Some g \<Rightarrow> list_ex (\<lambda>(prow, pcol). (prow + testStartX, pcol + currentCol) \<in> immuneSet) g))
      then True
      else overlapDigits immuneSet testStartX rest (currentCol + (widthOr digitsWidths currentDigit 3 + 1)))"

definition wouldOverlapImmune ::
  "(JSNumber \<Rightarrow> string) \<Rightarrow> ImmuneCell list \<Rightarrow> JSNumber option \<Rightarrow> int \<Rightarrow> int \<Rightarrow> bool" where
  "wouldOverlapImmune String' immuneCells rawAmount testStartX testStartY =
     (let immuneSet = set (map (\<lambda>c. (row c, col c)) immuneCells);
          donationStr = String' (Math_floor rawAmount)
      in if list_ex (\<lambda>(prow, pcol). (prow + testStartX - 1, pcol + testStartY) \<in> immuneSet) symbols0
         then True
         else overlapDigits immuneSet testStartX donationStr (testStartY + 4))"

text \<open>
  The loop of the immune-aware variant, from \<open>attempts\<close> on; it returns the candidate it
  ends with and the number of attempts made:
  \<^verbatim>\<open>
  do {
    startX = ...; startY = ...;
    attempts++;
  } while (wouldOverlapImmune(startX, startY) && attempts < maxAttempts);
  \<close>
\<close>

definition maxAttempts :: nat where "maxAttempts = 50"

function placementLoop ::
  "(int \<Rightarrow> int \<Rightarrow> bool) \<Rightarrow> (nat \<Rightarrow> int \<Rightarrow> int) \<Rightarrow> int \<Rightarrow> int \<Rightarrow> nat \<Rightarrow> int \<times> int \<times> nat" where
  "placementLoop overlaps floorRandom maxX maxY attempts =
     (case candidate floorRandom maxX maxY attempts of (startX, startY) \<Rightarrow>
        if overlaps startX startY \<and> attempts + 1 < maxAttempts
        then placementLoop overlaps floorRandom maxX maxY (attempts + 1)
        else (startX, startY, attempts + 1))"
  by pat_completeness auto

termination
  by (relation "measure (\<lambda>(overlaps, floorRandom, maxX, maxY, attempts). maxAttempts - attempts)") auto

text \<open>
  The loop of the older variant rejects a candidate inside the bottom-right zone and has
  no counter; \<open>n\<close> numbers the candidate it is about to draw. It may run forever, so its
  result is an option:
  \<^verbatim>\<open>
  do {
    startX = ...; startY = ...;
  } while (startX > CONFIG.ROWS - excludeBottomRows && startY > CONFIG.COLS - excludeRightCols);
  \<close>
\<close>

definition excludeBottomRows :: int where "excludeBottomRows = 18"

definition excludeRightCols :: int where "excludeRightCols = 65"

definition inExcludeZone :: "int \<times> int \<Rightarrow> bool" where
  "inExcludeZone p =
     (case p of (startX, startY) \<Rightarrow> startX > ROWS - excludeBottomRows \<and> startY > COLS - excludeRightCols)"

partial_function (option) placementLoop_v1 ::
  "(nat \<Rightarrow> int \<Rightarrow> int) \<Rightarrow> int \<Rightarrow> int \<Rightarrow> nat \<Rightarrow> (int \<times> int) option" where
  "placementLoop_v1 floorRandom maxX maxY n =
     (if inExcludeZone (candidate floorRandom maxX maxY n)
      then placementLoop_v1 floorRandom maxX maxY (n + 1)
      else Some (candidate floorRandom maxX maxY n))"

text \<open>
  The bounds both handlers compute before the loop, and the two searches as the
  handlers run them.
\<close>

definition maxX_of :: int where
  "maxX_of = ROWS - 8"

definition maxY_of :: "(JSNumber \<Rightarrow> string) \<Rightarrow> JSNumber option \<Rightarrow> int" where
  "maxY_of String' rawAmount = COLS - (int (length (String' (Math_floor rawAmount))) * 4 + 8)"

definition choosePlacement ::
  "(JSNumber \<Rightarrow> string) \<Rightarrow> ImmuneCell list \<Rightarrow> (nat \<Rightarrow> int \<Rightarrow> int) \<Rightarrow> JSNumber option
     \<Rightarrow> int \<times> int \<times> nat" where
  "choosePlacement String' immuneCells floorRandom rawAmount =
     placementLoop (wouldOverlapImmune String' immuneCells rawAmount) floorRandom
       maxX_of (maxY_of String' rawAmount) 0"

definition choosePlacement_v1 ::
  "(JSNumber \<Rightarrow> string) \<Rightarrow> (nat \<Rightarrow> int \<Rightarrow> int) \<Rightarrow> JSNumber option \<Rightarrow> (int \<times> int) option" where
  "choosePlacement_v1 String' floorRandom rawAmount =
     placementLoop_v1 floorRandom maxX_of (maxY_of String' rawAmount) 0"

text \<open>
  Two random sources. With the first every scaled draw is the largest it can be,
  \<open>m - 1\<close>, as when \<^verbatim>\<open>Math.random()\<close> keeps returning a value close to 1 (for the scales 47
  and 170 of the instance below, any value from 0.995 on). With the second every draw
  is 0, as when \<^verbatim>\<open>Math.random()\<close> keeps returning 0.
\<close>

definition stuckRandom :: "nat \<Rightarrow> int \<Rightarrow> int" where
  "stuckRandom k m = m - 1"

definition zeroRandom :: "nat \<Rightarrow> int \<Rightarrow> int" where
  "zeroRandom k m = 0"

section \<open>The large glyphs and the initial total\<close>









section \<open>The event handlers\<close>
















section \<open>The generation step, cell by cell\<close>

text \<open>
  The two loops of \<^verbatim>\<open>updateGrid\<close> write each cell of the copy once, from values read in
  the old grid, so the result is the old grid with \<open>nextCell\<close> applied at every position.
\<close>

lemma list_update_same2: "ng ! i ! j = v \<Longrightarrow> ng[i := (ng ! i)[j := v]] = ng"
  by (metis list_update_id)

lemma updateBody_eq:
  assumes "i < length ng" "j < length (ng ! i)" "j < length (grid ! i)" "ng ! i ! j = grid ! i ! j"
  shows "updateBody grid i ng j = ng[i := (ng ! i)[j := nextCell grid i j]]"
  using assms
  by (simp add: updateBody_def nextCell_def Let_def setCell_def rowSet_def rowGet_def list_update_same2)

lemma updateRow_aux:
  assumes "i < length ng" "length (ng ! i) = length (grid ! i)" "m \<le> length (grid ! i)"
    and "\<forall>j < length (grid ! i). ng ! i ! j = grid ! i ! j"
  shows "foldl (updateBody grid i) ng [0 ..< m] =
         ng[i := map (\<lambda>j. if j < m then nextCell grid i j else grid ! i ! j) [0 ..< length (grid ! i)]]"
  using assms(3)
proof (induction m)
  case 0
  have "map (\<lambda>j. grid ! i ! j) [0 ..< length (grid ! i)] = ng ! i"
    using assms by (intro nth_equalityI) auto
  then show ?case by simp
next
  case (Suc m)
  let ?R = "ng[i := map (\<lambda>j. if j < m then nextCell grid i j else grid ! i ! j) [0 ..< length (grid ! i)]]"
  have m: "m < length (grid ! i)" using Suc.prems by simp
  have "foldl (updateBody grid i) ng [0 ..< Suc m] = updateBody grid i ?R m"
    using Suc by simp
  also have "\<dots> = ?R[i := (?R ! i)[m := nextCell grid i m]]"
    using assms(1) m by (intro updateBody_eq) auto
  also have "\<dots> = ng[i := map (\<lambda>j. if j < Suc m then nextCell grid i j else grid ! i ! j) [0 ..< length (grid ! i)]]"
    using assms(1) m by (auto intro!: nth_equalityI arg_cong[where f="list_update ng i"] simp: nth_list_update less_Suc_eq)
  finally show ?case .
qed

lemma updateRow_eq:
  assumes "i < length ng" "ng ! i = grid ! i"
  shows "updateRow grid ng i = ng[i := map (nextCell grid i) [0 ..< length (grid ! i)]]"
proof -
  have "map (\<lambda>j. if j < length (grid ! i) then nextCell grid i j else grid ! i ! j) [0 ..< length (grid ! i)]
        = map (nextCell grid i) [0 ..< length (grid ! i)]"
    by (rule map_cong) auto
  with updateRow_aux[of i ng grid "length (grid ! i)"] assms show ?thesis
    by (simp add: updateRow_def)
qed

lemma updateGrid_aux:
  "k \<le> length grid \<Longrightarrow>
   foldl (updateRow grid) grid [0 ..< k] =
   map (\<lambda>i. if i < k then map (nextCell grid i) [0 ..< length (grid ! i)] else grid ! i) [0 ..< length grid]"
proof (induction k)
  case 0
  show ?case by (simp add: map_nth)
next
  case (Suc k)
  let ?R = "map (\<lambda>i. if i < k then map (nextCell grid i) [0 ..< length (grid ! i)] else grid ! i) [0 ..< length grid]"
  have k: "k < length grid" using Suc.prems by simp
  have "foldl (updateRow grid) grid [0 ..< Suc k] = updateRow grid ?R k"
    using Suc by simp
  also have "\<dots> = ?R[k := map (nextCell grid k) [0 ..< length (grid ! k)]]"
    using k by (intro updateRow_eq) auto
  also have "\<dots> = map (\<lambda>i. if i < Suc k then map (nextCell grid i) [0 ..< length (grid ! i)] else grid ! i) [0 ..< length grid]"
    using k by (auto intro!: nth_equalityI simp: nth_list_update less_Suc_eq)
  finally show ?case .
qed

lemma updateGrid_eq:
  "updateGrid grid = map (\<lambda>i. map (nextCell grid i) [0 ..< length (grid ! i)]) [0 ..< length grid]"
  using updateGrid_aux[of "length grid" grid] by (simp add: updateGrid_def cong: map_cong)

lemma rect_row_length: "rect grid \<Longrightarrow> r < length grid \<Longrightarrow> length (grid ! r) = length (grid ! 0)"
  by (simp add: rect_def)

lemma alive_test_cellAt:
  assumes "rect grid"
  shows "(r \<ge> 0 \<and> r < int (length grid) \<and> c \<ge> 0 \<and> c < int (length (grid ! 0))
          \<and> rowGet (grid ! nat r) (nat c) = Some ALIVE) \<longleftrightarrow> cellAt grid r c = Some ALIVE"
proof (cases "0 \<le> r \<and> r < int (length grid) \<and> 0 \<le> c")
  case True
  then have "length (grid ! nat r) = length (grid ! 0)"
    using assms by (intro rect_row_length) auto
  with True show ?thesis by (auto simp: cellAt_def rowGet_def)
next
  case False
  then show ?thesis by (auto simp: cellAt_def)
qed

lemma countBody_rect:
  assumes "rect grid"
  shows "countBody grid r c count (i, j) =
         (if (i, j) \<noteq> (0, 0) \<and> cellAt grid (r + i) (c + j) = Some ALIVE then count + 1 else count)"
  using alive_test_cellAt[OF assms, of "r + i" "c + j"]
  by (simp add: countBody_def Let_def)

lemma countLiveNeighbors_rect:
  assumes "rect grid"
  shows "countLiveNeighbors grid r c = liveNeighbors grid r c"
  by (simp add: countLiveNeighbors_def neighborOffsets_def countBody_rect[OF assms]
        liveNeighbors_def surrounding_def)

lemma surrounding_mem:
  "(a, b) \<in> set (surrounding r c) \<longleftrightarrow> \<bar>a - r\<bar> \<le> 1 \<and> \<bar>b - c\<bar> \<le> 1 \<and> (a, b) \<noteq> (r, c)"
  unfolding surrounding_def set_simps insert_iff empty_iff prod.inject by presburger

lemma surrounding_set:
  "set (surrounding r c) = {(r', c'). \<bar>r' - r\<bar> \<le> 1 \<and> \<bar>c' - c\<bar> \<le> 1 \<and> (r', c') \<noteq> (r, c)}"
  using surrounding_mem by blast

lemma surrounding_distinct: "distinct (surrounding r c)"
  by (simp add: surrounding_def)

lemma liveNeighbors_card:
  "liveNeighbors grid r c =
   card {(r', c'). \<bar>r' - r\<bar> \<le> 1 \<and> \<bar>c' - c\<bar> \<le> 1 \<and> (r', c') \<noteq> (r, c) \<and> cellAt grid r' c' = Some ALIVE}"
proof -
  have "{(r', c'). \<bar>r' - r\<bar> \<le> 1 \<and> \<bar>c' - c\<bar> \<le> 1 \<and> (r', c') \<noteq> (r, c) \<and> cellAt grid r' c' = Some ALIVE}
        = set (filter (\<lambda>(r', c'). cellAt grid r' c' = Some ALIVE) (surrounding r c))"
    using surrounding_set[of r c] by auto
  moreover have "distinct (filter (\<lambda>(r', c'). cellAt grid r' c' = Some ALIVE) (surrounding r c))"
    using surrounding_distinct by simp
  ultimately show ?thesis
    unfolding liveNeighbors_def by (simp only: distinct_card)
qed

lemma updateBody_v1_eq: "updateBody_v1 grid i ng j = updateBody grid i ng j"
  by (simp add: updateBody_v1_def updateBody_def)

lemma updateGrid_v1_eq: "updateGrid_v1 grid = updateGrid grid"
proof -
  have "updateBody_v1 grid = updateBody grid"
    by (intro ext) (rule updateBody_v1_eq)
  then show ?thesis
    by (simp add: updateGrid_v1_def updateGrid_def updateRow_def[abs_def])
qed

lemma length_updateGrid: "length (updateGrid grid) = length grid"
  by (simp add: updateGrid_eq)

lemma length_updateGrid_row: "i < length grid \<Longrightarrow> length (updateGrid grid ! i) = length (grid ! i)"
  by (simp add: updateGrid_eq)

lemma rect_updateGrid: "rect grid \<Longrightarrow> rect (updateGrid grid)"
proof -
  assume r: "rect grid"
  have "length (updateGrid grid ! i) = length (updateGrid grid ! 0)" if "i < length grid" for i
  proof -
    from that have "0 < length grid" by (cases grid) simp_all
    with that show ?thesis
      using rect_row_length [OF r that] by (simp add: length_updateGrid_row)
  qed
  then have "\<forall>i < length (updateGrid grid). length (updateGrid grid ! i) = length (updateGrid grid ! 0)"
    by (simp add: length_updateGrid)
  then show ?thesis
    unfolding rect_def by (simp only: all_set_conv_all_nth)
qed

lemma cellAt_updateGrid:
  "cellAt (updateGrid grid) r c =
     (if 0 \<le> r \<and> r < int (length grid) \<and> 0 \<le> c \<and> c < int (length (grid ! nat r))
      then nextCell grid (nat r) (nat c) else None)"
  by (auto simp: cellAt_def rowGet_def updateGrid_eq)

lemma cellAt_in_range:
  "i < length grid \<Longrightarrow> j < length (grid ! i) \<Longrightarrow> cellAt grid (int i) (int j) = grid ! i ! j"
  by (simp add: cellAt_def rowGet_def)

lemma cellAt_rowGet:
  "i < length grid \<Longrightarrow> rowGet (grid ! i) j = cellAt grid (int i) (int j)"
  by (simp add: cellAt_def)

text \<open>
  Claim C1. On a rectangular grid, for a cell that is not \<^verbatim>\<open>PENDING\<close>, \<^verbatim>\<open>INITIAL\<close> or
  \<^verbatim>\<open>IMMUNE\<close>, one call of \<^verbatim>\<open>updateGrid\<close> gives the cell the state Conway's rule
  computes from the old grid: with \<open>n\<close> the number of \<^verbatim>\<open>ALIVE\<close> cells among the eight
  surrounding positions that lie in the grid, an \<^verbatim>\<open>ALIVE\<close> cell with \<open>n < 2\<close> or \<open>n > 3\<close>
  becomes \<^verbatim>\<open>DEAD\<close>, a \<^verbatim>\<open>DEAD\<close> cell with \<open>n = 3\<close> becomes \<^verbatim>\<open>ALIVE\<close>, and any other
  cell keeps its state. (\<open>liveNeighbors_card\<close> reads \<open>n\<close> as the size of a set of cells.)
\<close>

theorem updateGrid_conway:
  assumes "rect grid" and "i < length grid" and "j < length (grid ! i)"
    and "\<not> protected (cellAt grid (int i) (int j))"
  shows "cellAt (updateGrid grid) (int i) (int j) =
     (if cellAt grid (int i) (int j) = Some ALIVE
         \<and> (liveNeighbors grid (int i) (int j) < 2 \<or> liveNeighbors grid (int i) (int j) > 3)
      then Some DEAD
      else if cellAt grid (int i) (int j) = Some DEAD \<and> liveNeighbors grid (int i) (int j) = 3
      then Some ALIVE
      else cellAt grid (int i) (int j))"
  using assms(2,3)
  by (simp add: cellAt_updateGrid nextCell_def countLiveNeighbors_rect[OF assms(1)]
        cellAt_rowGet Let_def)

lemma nextCell_protected:
  "protected (rowGet (grid ! i) j) \<Longrightarrow> nextCell grid i j = rowGet (grid ! i) j"
  by (auto simp: nextCell_def protected_def Let_def)

lemma nextCell_cases:
  "nextCell grid i j = rowGet (grid ! i) j
   \<or> (rowGet (grid ! i) j = Some ALIVE \<and> nextCell grid i j = Some DEAD)
   \<or> (rowGet (grid ! i) j = Some DEAD \<and> nextCell grid i j = Some ALIVE)"
  by (simp add: nextCell_def Let_def)

lemma cellAt_outside:
  "\<not> (0 \<le> r \<and> r < int (length grid) \<and> 0 \<le> c \<and> c < int (length (grid ! nat r)))
   \<Longrightarrow> cellAt grid r c = None"
  by (auto simp: cellAt_def rowGet_def)

lemma cellAt_inside:
  "0 \<le> r \<and> r < int (length grid) \<and> 0 \<le> c \<and> c < int (length (grid ! nat r))
   \<Longrightarrow> cellAt grid r c = rowGet (grid ! nat r) (nat c)"
  by (simp add: cellAt_def)

text \<open>
  Claim C2. A cell whose state is \<^verbatim>\<open>PENDING\<close>, \<^verbatim>\<open>INITIAL\<close> or \<^verbatim>\<open>IMMUNE\<close> has the same state
  after \<^verbatim>\<open>updateGrid\<close>, whatever its neighbours are, in both variants of the function.
\<close>

theorem updateGrid_protected:
  assumes "protected (cellAt grid r c)"
  shows "cellAt (updateGrid grid) r c = cellAt grid r c
       \<and> cellAt (updateGrid_v1 grid) r c = cellAt grid r c"
proof -
  have rng: "0 \<le> r \<and> r < int (length grid) \<and> 0 \<le> c \<and> c < int (length (grid ! nat r))"
  proof (rule ccontr)
    assume "\<not> ?thesis"
    then have "cellAt grid r c = None" by (rule cellAt_outside)
    with assms show False by (simp add: protected_def)
  qed
  then have eq: "cellAt grid r c = rowGet (grid ! nat r) (nat c)"
    by (rule cellAt_inside)
  with assms have "nextCell grid (nat r) (nat c) = rowGet (grid ! nat r) (nat c)"
    by (simp add: nextCell_protected)
  with rng eq have "cellAt (updateGrid grid) r c = cellAt grid r c"
    by (simp add: cellAt_updateGrid)
  then show ?thesis by (simp add: updateGrid_v1_eq)
qed

text \<open>
  Claim C9. A cell that is \<^verbatim>\<open>DEAD\<close> or \<^verbatim>\<open>ALIVE\<close> is \<^verbatim>\<open>DEAD\<close> or \<^verbatim>\<open>ALIVE\<close> after
  \<^verbatim>\<open>updateGrid\<close>, and a position holds a protected cell after the step exactly when it
  held one before; the two variants of \<^verbatim>\<open>updateGrid\<close> compute the same grid.
\<close>

theorem updateGrid_protected_set:
  "(cellAt grid r c \<in> {Some DEAD, Some ALIVE} \<longrightarrow>
      cellAt (updateGrid grid) r c \<in> {Some DEAD, Some ALIVE})
   \<and> (protected (cellAt (updateGrid grid) r c) \<longleftrightarrow> protected (cellAt grid r c))
   \<and> updateGrid_v1 grid = updateGrid grid"
proof (cases "0 \<le> r \<and> r < int (length grid) \<and> 0 \<le> c \<and> c < int (length (grid ! nat r))")
  case True
  then have old: "cellAt grid r c = rowGet (grid ! nat r) (nat c)"
    by (rule cellAt_inside)
  from True have new: "cellAt (updateGrid grid) r c = nextCell grid (nat r) (nat c)"
    by (simp add: cellAt_updateGrid)
  from nextCell_cases [of grid "nat r" "nat c"] show ?thesis
    unfolding old new by (auto simp: protected_def updateGrid_v1_eq)
next
  case False
  then have "cellAt grid r c = None"
    by (rule cellAt_outside)
  moreover have "cellAt (updateGrid grid) r c = None"
    unfolding cellAt_updateGrid using False by (simp only: if_False)
  ultimately show ?thesis
    by (simp add: protected_def updateGrid_v1_eq)
qed

lemma rect_demoGrid: "rect demoGrid"
  by (simp add: rect_def demoGrid_def)

theorem updateGrid_conway_witness:
  "rect demoGrid \<and> \<not> protected (cellAt demoGrid 0 2) \<and> liveNeighbors demoGrid 0 2 = 3
   \<and> cellAt demoGrid 0 2 = Some DEAD \<and> cellAt (updateGrid demoGrid) 0 2 = Some ALIVE"
proof -
  have c: "cellAt demoGrid 0 2 = Some DEAD"
    by (simp add: demoGrid_def cellAt_def rowGet_def)
  have p: "\<not> protected (cellAt demoGrid (int 0) (int 2))"
    using c by (simp add: protected_def)
  have n: "liveNeighbors demoGrid 0 2 = 3"
    by (simp add: liveNeighbors_def surrounding_def demoGrid_def cellAt_def rowGet_def)
  have "(0::nat) < length demoGrid" "(2::nat) < length (demoGrid ! 0)"
    by (simp_all add: demoGrid_def)
  from updateGrid_conway [OF rect_demoGrid this p] c n p rect_demoGrid
  show ?thesis by simp
qed

theorem updateGrid_protected_witness:
  "protected (cellAt demoGrid 1 0) \<and> cellAt (updateGrid demoGrid) 1 0 = Some IMMUNE
   \<and> cellAt (updateGrid_v1 demoGrid) 1 0 = Some IMMUNE"
proof -
  have c: "cellAt demoGrid 1 0 = Some IMMUNE"
    by (simp add: demoGrid_def cellAt_def rowGet_def)
  then have p: "protected (cellAt demoGrid 1 0)"
    by (simp add: protected_def)
  from updateGrid_protected [OF p] c p show ?thesis by simp
qed

theorem updateGrid_protected_set_witness:
  "cellAt demoGrid 0 1 \<in> {Some DEAD, Some ALIVE}
   \<and> cellAt (updateGrid demoGrid) 0 1 \<in> {Some DEAD, Some ALIVE}
   \<and> \<not> protected (cellAt (updateGrid demoGrid) 0 1)"
proof -
  have c: "cellAt demoGrid 0 1 = Some ALIVE"
    by (simp add: demoGrid_def cellAt_def rowGet_def)
  then have p: "\<not> protected (cellAt demoGrid 0 1)"
    by (simp add: protected_def)
  from updateGrid_protected_set [of demoGrid 0 1] c p show ?thesis by simp
qed

section \<open>The blinker oscillates\<close>

lemma count_row_of_three:
  "length (filter (\<lambda>(r', c'). r' = R \<and> \<bar>c' - C\<bar> \<le> 1) (surrounding I J)) =
     (if I = R then (if J = C then 2 else if \<bar>J - C\<bar> \<le> 2 then 1 else 0)
      else if \<bar>I - R\<bar> = 1 then (if J = C then 3 else if \<bar>J - C\<bar> = 1 then 2 else if \<bar>J - C\<bar> = 2 then 1 else 0)
      else 0)"
  unfolding surrounding_def by (simp; presburger)

lemma count_column_of_three:
  "length (filter (\<lambda>(r', c'). c' = C \<and> \<bar>r' - R\<bar> \<le> 1) (surrounding I J)) =
     (if J = C then (if I = R then 2 else if \<bar>I - R\<bar> \<le> 2 then 1 else 0)
      else if \<bar>J - C\<bar> = 1 then (if I = R then 3 else if \<bar>I - R\<bar> = 1 then 2 else if \<bar>I - R\<bar> = 2 then 1 else 0)
      else 0)"
  unfolding surrounding_def by (simp; presburger)

lemma rect_blinkerH: "rect (blinkerH rows cols r c)"
  by (cases rows) (auto simp: rect_def blinkerH_def upt_conv_Cons simp del: upt_Suc)

lemma rect_blinkerV: "rect (blinkerV rows cols r c)"
  by (cases rows) (auto simp: rect_def blinkerV_def upt_conv_Cons simp del: upt_Suc)

lemma cellAt_blinkerH:
  assumes "r < rows" "1 \<le> c" "c + 1 < cols"
  shows "cellAt (blinkerH rows cols r c) r' c' = Some ALIVE \<longleftrightarrow> r' = int r \<and> \<bar>c' - int c\<bar> \<le> 1"
proof (cases "0 \<le> r' \<and> r' < int rows \<and> 0 \<le> c' \<and> c' < int cols")
  case True
  then have nat: "nat r' < rows" "nat c' < cols" by auto
  with True have "cellAt (blinkerH rows cols r c) r' c' =
      (if nat r' = r \<and> (nat c' + 1 = c \<or> nat c' = c \<or> nat c' = c + 1) then Some ALIVE else Some DEAD)"
    by (simp add: cellAt_def rowGet_def blinkerH_def)
  with True show ?thesis by auto
next
  case False
  then have "cellAt (blinkerH rows cols r c) r' c' = None"
    by (auto simp: cellAt_def rowGet_def blinkerH_def)
  with False assms show ?thesis by auto
qed

lemma cellAt_blinkerV:
  assumes "c < cols" "1 \<le> r" "r + 1 < rows"
  shows "cellAt (blinkerV rows cols r c) r' c' = Some ALIVE \<longleftrightarrow> c' = int c \<and> \<bar>r' - int r\<bar> \<le> 1"
proof (cases "0 \<le> r' \<and> r' < int rows \<and> 0 \<le> c' \<and> c' < int cols")
  case True
  then have nat: "nat r' < rows" "nat c' < cols" by auto
  with True have "cellAt (blinkerV rows cols r c) r' c' =
      (if nat c' = c \<and> (nat r' + 1 = r \<or> nat r' = r \<or> nat r' = r + 1) then Some ALIVE else Some DEAD)"
    by (simp add: cellAt_def rowGet_def blinkerV_def)
  with True show ?thesis by auto
next
  case False
  then have "cellAt (blinkerV rows cols r c) r' c' = None"
    by (auto simp: cellAt_def rowGet_def blinkerV_def)
  with False assms show ?thesis by auto
qed

lemma liveNeighbors_blinkerH:
  assumes "r < rows" "1 \<le> c" "c + 1 < cols"
  shows "liveNeighbors (blinkerH rows cols r c) I J =
         length (filter (\<lambda>(r', c'). r' = int r \<and> \<bar>c' - int c\<bar> \<le> 1) (surrounding I J))"
  unfolding liveNeighbors_def cellAt_blinkerH [OF assms] ..

lemma liveNeighbors_blinkerV:
  assumes "c < cols" "1 \<le> r" "r + 1 < rows"
  shows "liveNeighbors (blinkerV rows cols r c) I J =
         length (filter (\<lambda>(r', c'). c' = int c \<and> \<bar>r' - int r\<bar> \<le> 1) (surrounding I J))"
  unfolding liveNeighbors_def cellAt_blinkerV [OF assms] ..

lemma nextCell_blinkerH:
  assumes "1 \<le> r" "r + 1 < rows" "1 \<le> c" "c + 1 < cols" "i < rows" "j < cols"
  shows "nextCell (blinkerH rows cols r c) i j =
         (if j = c \<and> (i + 1 = r \<or> i = r \<or> i = r + 1) then Some ALIVE else Some DEAD)"
proof -
  have r: "r < rows" using assms by simp
  have old: "rowGet (blinkerH rows cols r c ! i) j =
      (if i = r \<and> (j + 1 = c \<or> j = c \<or> j = c + 1) then Some ALIVE else Some DEAD)"
    using assms by (simp add: rowGet_def blinkerH_def)
  have n: "countLiveNeighbors (blinkerH rows cols r c) (int i) (int j) =
      (if int i = int r then (if int j = int c then 2 else if \<bar>int j - int c\<bar> \<le> 2 then 1 else 0)
       else if \<bar>int i - int r\<bar> = 1
         then (if int j = int c then 3 else if \<bar>int j - int c\<bar> = 1 then 2
               else if \<bar>int j - int c\<bar> = 2 then 1 else 0)
       else 0)"
    by (simp only: countLiveNeighbors_rect [OF rect_blinkerH]
          liveNeighbors_blinkerH [OF r assms(3,4)] count_row_of_three)
  show ?thesis
    unfolding nextCell_def Let_def old n using assms(1-4) by (auto split: if_splits)
qed

lemma nextCell_blinkerV:
  assumes "1 \<le> r" "r + 1 < rows" "1 \<le> c" "c + 1 < cols" "i < rows" "j < cols"
  shows "nextCell (blinkerV rows cols r c) i j =
         (if i = r \<and> (j + 1 = c \<or> j = c \<or> j = c + 1) then Some ALIVE else Some DEAD)"
proof -
  have c: "c < cols" using assms by simp
  have old: "rowGet (blinkerV rows cols r c ! i) j =
      (if j = c \<and> (i + 1 = r \<or> i = r \<or> i = r + 1) then Some ALIVE else Some DEAD)"
    using assms by (simp add: rowGet_def blinkerV_def)
  have n: "countLiveNeighbors (blinkerV rows cols r c) (int i) (int j) =
      (if int j = int c then (if int i = int r then 2 else if \<bar>int i - int r\<bar> \<le> 2 then 1 else 0)
       else if \<bar>int j - int c\<bar> = 1
         then (if int i = int r then 3 else if \<bar>int i - int r\<bar> = 1 then 2
               else if \<bar>int i - int r\<bar> = 2 then 1 else 0)
       else 0)"
    by (simp only: countLiveNeighbors_rect [OF rect_blinkerV]
          liveNeighbors_blinkerV [OF c assms(1,2)] count_column_of_three)
  show ?thesis
    unfolding nextCell_def Let_def old n using assms(1-4) by (auto split: if_splits)
qed

text \<open>
  Claim C8. In a grid that is dead except for a horizontal row of three \<^verbatim>\<open>ALIVE\<close> cells
  whose middle cell \<open>(r, c)\<close> is at least one cell away from every edge, one call of
  \<^verbatim>\<open>updateGrid\<close> gives the vertical row of three centred on the same cell, and a second
  call gives the horizontal row back.
\<close>

theorem blinker_oscillates:
  assumes "1 \<le> r" "r + 1 < rows" "1 \<le> c" "c + 1 < cols"
  shows "updateGrid (blinkerH rows cols r c) = blinkerV rows cols r c
       \<and> updateGrid (updateGrid (blinkerH rows cols r c)) = blinkerH rows cols r c"
proof -
  have len: "length (blinkerH rows cols r c) = rows" "length (blinkerV rows cols r c) = rows"
    by (simp_all add: blinkerH_def blinkerV_def)
  have lenr: "\<And>i. i < rows \<Longrightarrow> length (blinkerH rows cols r c ! i) = cols"
       "\<And>i. i < rows \<Longrightarrow> length (blinkerV rows cols r c ! i) = cols"
    by (simp_all add: blinkerH_def blinkerV_def)
  have 1: "updateGrid (blinkerH rows cols r c) = blinkerV rows cols r c"
  proof (rule nth_equalityI)
    show "length (updateGrid (blinkerH rows cols r c)) = length (blinkerV rows cols r c)"
      by (simp add: updateGrid_eq len)
  next
    fix i assume "i < length (updateGrid (blinkerH rows cols r c))"
    then have i: "i < rows" by (simp add: updateGrid_eq len)
    show "updateGrid (blinkerH rows cols r c) ! i = blinkerV rows cols r c ! i"
    proof (rule nth_equalityI)
      show "length (updateGrid (blinkerH rows cols r c) ! i) = length (blinkerV rows cols r c ! i)"
        using i by (simp add: updateGrid_eq len lenr)
    next
      fix j assume "j < length (updateGrid (blinkerH rows cols r c) ! i)"
      then have j: "j < cols" using i by (simp add: updateGrid_eq len lenr)
      have "updateGrid (blinkerH rows cols r c) ! i ! j = nextCell (blinkerH rows cols r c) i j"
        using i j by (simp add: updateGrid_eq len lenr)
      also have "\<dots> = blinkerV rows cols r c ! i ! j"
        using i j by (simp add: nextCell_blinkerH [OF assms i j] blinkerV_def)
      finally show "updateGrid (blinkerH rows cols r c) ! i ! j = blinkerV rows cols r c ! i ! j" .
    qed
  qed
  have 2: "updateGrid (blinkerV rows cols r c) = blinkerH rows cols r c"
  proof (rule nth_equalityI)
    show "length (updateGrid (blinkerV rows cols r c)) = length (blinkerH rows cols r c)"
      by (simp add: updateGrid_eq len)
  next
    fix i assume "i < length (updateGrid (blinkerV rows cols r c))"
    then have i: "i < rows" by (simp add: updateGrid_eq len)
    show "updateGrid (blinkerV rows cols r c) ! i = blinkerH rows cols r c ! i"
    proof (rule nth_equalityI)
      show "length (updateGrid (blinkerV rows cols r c) ! i) = length (blinkerH rows cols r c ! i)"
        using i by (simp add: updateGrid_eq len lenr)
    next
      fix j assume "j < length (updateGrid (blinkerV rows cols r c) ! i)"
      then have j: "j < cols" using i by (simp add: updateGrid_eq len lenr)
      have "updateGrid (blinkerV rows cols r c) ! i ! j = nextCell (blinkerV rows cols r c) i j"
        using i j by (simp add: updateGrid_eq len lenr)
      also have "\<dots> = blinkerH rows cols r c ! i ! j"
        using i j by (simp add: nextCell_blinkerV [OF assms i j] blinkerH_def)
      finally show "updateGrid (blinkerV rows cols r c) ! i ! j = blinkerH rows cols r c ! i ! j" .
    qed
  qed
  from 1 2 show ?thesis by simp
qed

theorem blinker_oscillates_witness:
  "(1::nat) \<le> 2 \<and> (2::nat) + 1 < 5
   \<and> blinkerH 5 5 2 2 =
       [[Some DEAD, Some DEAD, Some DEAD, Some DEAD, Some DEAD],
        [Some DEAD, Some DEAD, Some DEAD, Some DEAD, Some DEAD],
        [Some DEAD, Some ALIVE, Some ALIVE, Some ALIVE, Some DEAD],
        [Some DEAD, Some DEAD, Some DEAD, Some DEAD, Some DEAD],
        [Some DEAD, Some DEAD, Some DEAD, Some DEAD, Some DEAD]]
   \<and> updateGrid (blinkerH 5 5 2 2) =
       [[Some DEAD, Some DEAD, Some DEAD, Some DEAD, Some DEAD],
        [Some DEAD, Some DEAD, Some ALIVE, Some DEAD, Some DEAD],
        [Some DEAD, Some DEAD, Some ALIVE, Some DEAD, Some DEAD],
        [Some DEAD, Some DEAD, Some ALIVE, Some DEAD, Some DEAD],
        [Some DEAD, Some DEAD, Some DEAD, Some DEAD, Some DEAD]]
   \<and> updateGrid (updateGrid (blinkerH 5 5 2 2)) = blinkerH 5 5 2 2"
proof -
  have h: "(1::nat) \<le> 2" "(2::nat) + 1 < 5" by simp_all
  have H: "blinkerH 5 5 2 2 =
       [[Some DEAD, Some DEAD, Some DEAD, Some DEAD, Some DEAD],
        [Some DEAD, Some DEAD, Some DEAD, Some DEAD, Some DEAD],
        [Some DEAD, Some ALIVE, Some ALIVE, Some ALIVE, Some DEAD],
        [Some DEAD, Some DEAD, Some DEAD, Some DEAD, Some DEAD],
        [Some DEAD, Some DEAD, Some DEAD, Some DEAD, Some DEAD]]"
    by code_simp
  have V: "blinkerV 5 5 2 2 =
       [[Some DEAD, Some DEAD, Some DEAD, Some DEAD, Some DEAD],
        [Some DEAD, Some DEAD, Some ALIVE, Some DEAD, Some DEAD],
        [Some DEAD, Some DEAD, Some ALIVE, Some DEAD, Some DEAD],
        [Some DEAD, Some DEAD, Some ALIVE, Some DEAD, Some DEAD],
        [Some DEAD, Some DEAD, Some DEAD, Some DEAD, Some DEAD]]"
    by code_simp
  note osc = blinker_oscillates [OF h h]
  from osc have 1: "updateGrid (blinkerH 5 5 2 2) = blinkerV 5 5 2 2"
    by (rule conjunct1)
  from osc have 2: "updateGrid (updateGrid (blinkerH 5 5 2 2)) = blinkerH 5 5 2 2"
    by (rule conjunct2)
  from h H 1 [unfolded V] 2 show ?thesis by blast
qed

section \<open>The doubled glyphs\<close>

lemma set_doublePixel: "set (doublePixel p) = block2x2 p"
  by (cases p) (simp add: doublePixel_def block2x2_def mult.commute)

lemma set_flatMap_doublePixel: "set (flatMap doublePixel ps) = (\<Union>p \<in> set ps. block2x2 p)"
  by (simp add: flatMap_def set_doublePixel)

lemma foldl_entries_lookup:
  "foldl (\<lambda>m (k, v). m(k \<mapsto> f v)) m0 kvs d =
     (case map_of (rev kvs) d of Some v \<Rightarrow> Some (f v) | None \<Rightarrow> m0 d)"
  by (induction kvs arbitrary: m0) (auto split: option.splits simp: map_add_def)

lemma map_of_rev_distinct:
  assumes "distinct (map fst xs)"
  shows "map_of (rev xs) = map_of xs"
proof -
  have "distinct (map fst (rev xs))"
    using assms by (simp only: rev_map [symmetric] distinct_rev)
  then show ?thesis
    using assms by (simp add: map_of_inject_set)
qed

lemma digitsEntries_keys: "map fst digitsEntries = [0 ..< 10]"
  by (simp add: digitsEntries_def upt_conv_Cons del: upt_Suc)

lemma digitsDoubled_lookup:
  "digitsDoubled d = map_option (flatMap doublePixel) (digits d)"
proof -
  have "distinct (map fst digitsEntries)"
    by (simp only: digitsEntries_keys distinct_upt)
  then have "map_of (rev digitsEntries) = map_of digitsEntries"
    by (rule map_of_rev_distinct)
  then show ?thesis
    by (simp add: digitsDoubled_def createDoubledDigits_def foldl_entries_lookup digits_def
        split: option.splits)
qed

lemma digits_defined: "d < 10 \<Longrightarrow> \<exists>small. digits d = Some small"
proof -
  assume "d < 10"
  then have "d \<in> set (map fst digitsEntries)"
    by (simp only: digitsEntries_keys) simp
  then have "d \<in> dom (map_of digitsEntries)"
    by (simp only: dom_map_of_conv_image_fst set_map)
  then show ?thesis by (auto simp: digits_def)
qed

text \<open>
  Claim C10. For every digit \<open>d\<close> from 0 to 9 the doubled glyph \<^verbatim>\<open>digitsDoubled[d]\<close> is, as a
  set of offsets, the union of the 2x2 blocks \<open>(2r-1, 2c-1)\<close>, \<open>(2r-1, 2c)\<close>, \<open>(2r, 2c-1)\<close>,
  \<open>(2r, 2c)\<close> of the pixels \<open>(r, c)\<close> of \<^verbatim>\<open>digits[d]\<close>, and \<^verbatim>\<open>symbolDoubled\<close> is the same
  expansion of the small currency sign.
\<close>

theorem doubled_glyphs_expand:
  "(d < 10 \<longrightarrow>
      (\<exists>small big. digits d = Some small \<and> digitsDoubled d = Some big
         \<and> set big = (\<Union>p \<in> set small. block2x2 p)))
   \<and> set symbolDoubled = (\<Union>p \<in> set symbols0. block2x2 p)"
proof (intro conjI impI)
  assume "d < 10"
  then obtain small where s: "digits d = Some small"
    using digits_defined by blast
  then have "digitsDoubled d = Some (flatMap doublePixel small)"
    by (simp add: digitsDoubled_lookup)
  with s show "\<exists>small big. digits d = Some small \<and> digitsDoubled d = Some big
         \<and> set big = (\<Union>p \<in> set small. block2x2 p)"
    by (simp add: set_flatMap_doublePixel)
next
  show "set symbolDoubled = (\<Union>p \<in> set symbols0. block2x2 p)"
    by (simp add: symbolDoubled_def createDoubledSymbol_def set_flatMap_doublePixel)
qed

theorem doubled_glyphs_expand_witness:
  "(1::nat) < 10 \<and> digits 1 = Some [(1, 1), (2, 1), (3, 1), (4, 1), (5, 1)]
   \<and> (\<exists>big. digitsDoubled 1 = Some big
         \<and> set big = (\<Union>p \<in> {(1, 1), (2, 1), (3, 1), (4, 1), (5, 1)}. block2x2 p))"
proof -
  have d: "digits 1 = Some [(1, 1), (2, 1), (3, 1), (4, 1), (5, 1)]"
    by (simp add: digits_def digitsEntries_def)
  have "(1::nat) < 10" by simp
  with doubled_glyphs_expand [of 1] d show ?thesis by auto
qed

section \<open>What a stamp writes\<close>

lemma setCell_in_row:
  assumes "r < length grid" "c < length (grid ! r)"
  shows "setCell grid r c st = grid[r := (grid ! r)[c := Some st]]"
  using assms by (simp add: setCell_def rowSet_def)

lemma inGrid_row:
  assumes "rect grid" "inGrid grid (r, c)"
  shows "nat r < length grid" "nat c < length (grid ! nat r)"
proof -
  from assms(2) show r: "nat r < length grid"
    by (auto simp: inGrid_def)
  from assms(2) have "nat c < length (grid ! 0)"
    by (auto simp: inGrid_def)
  with rect_row_length [OF assms(1) r] show "nat c < length (grid ! nat r)"
    by simp
qed

lemma length_setCell: "length (setCell grid r c st) = length grid"
  by (simp add: setCell_def)

lemma length_setCell_row:
  assumes "rect grid" "inGrid grid (r, c)"
  shows "length (setCell grid (nat r) (nat c) st ! i) = length (grid ! i)"
proof -
  note rc = inGrid_row [OF assms]
  show ?thesis
    using rc by (cases "i = nat r") (simp_all add: setCell_in_row [OF rc])
qed

lemma rect_setCell:
  assumes "rect grid" "inGrid grid (r, c)"
  shows "rect (setCell grid (nat r) (nat c) st)"
proof -
  have "\<forall>i < length grid. length (grid ! i) = length (grid ! 0)"
    using assms(1) by (simp add: rect_row_length)
  then have "\<forall>i < length (setCell grid (nat r) (nat c) st).
      length (setCell grid (nat r) (nat c) st ! i) = length (setCell grid (nat r) (nat c) st ! 0)"
    by (simp add: length_setCell length_setCell_row [OF assms])
  then show ?thesis
    unfolding rect_def by (simp only: all_set_conv_all_nth)
qed

lemma inGrid_setCell:
  assumes "rect grid" "inGrid grid (r, c)"
  shows "inGrid (setCell grid (nat r) (nat c) st) = inGrid grid"
  by (intro ext) (simp add: inGrid_def length_setCell length_setCell_row [OF assms])

lemma cellAt_setCell:
  assumes "rect grid" "inGrid grid (r, c)"
  shows "cellAt (setCell grid (nat r) (nat c) st) r' c' =
         (if (r', c') = (r, c) then Some st else cellAt grid r' c')"
proof -
  note rc = inGrid_row [OF assms]
  from assms(2) have nn: "0 \<le> r" "0 \<le> c" by (auto simp: inGrid_def)
  show ?thesis
    using rc nn
    by (auto simp: cellAt_def rowGet_def setCell_in_row [OF rc] nth_list_update nat_eq_iff)
qed

lemma writeAll_Nil: "writeAll st [] grid = grid"
  by (simp add: writeAll_def)

lemma writeAll_Cons:
  "writeAll st ((r, c) # ps) grid = writeAll st ps (setCell grid (nat r) (nat c) st)"
  by (simp add: writeAll_def)

lemma writeAll_append: "writeAll st (ps @ qs) grid = writeAll st qs (writeAll st ps grid)"
  by (simp add: writeAll_def)

text \<open>Writing at positions inside a rectangular grid keeps its shape.\<close>

lemma writeAll_shape:
  assumes "rect grid" "\<forall>p \<in> set ps. inGrid grid p"
  shows "rect (writeAll st ps grid) \<and> inGrid (writeAll st ps grid) = inGrid grid
       \<and> length (writeAll st ps grid) = length grid"
  using assms
proof (induction ps arbitrary: grid)
  case Nil
  then show ?case by (simp add: writeAll_Nil)
next
  case (Cons p ps)
  obtain r c where p: "p = (r, c)" by (cases p)
  from Cons.prems have in_p: "inGrid grid (r, c)" by (simp add: p)
  let ?g = "setCell grid (nat r) (nat c) st"
  have g: "rect ?g" "inGrid ?g = inGrid grid" "length ?g = length grid"
    using Cons.prems(1) in_p by (simp_all add: rect_setCell inGrid_setCell length_setCell)
  with Cons.prems have "\<forall>q \<in> set ps. inGrid ?g q" by simp
  from Cons.IH [OF g(1) this] g show ?case
    by (simp add: p writeAll_Cons)
qed

lemma cellAt_writeAll:
  assumes "rect grid" "\<forall>p \<in> set ps. inGrid grid p"
  shows "cellAt (writeAll st ps grid) r' c' = (if (r', c') \<in> set ps then Some st else cellAt grid r' c')"
  using assms
proof (induction ps arbitrary: grid)
  case Nil
  then show ?case by (simp add: writeAll_Nil)
next
  case (Cons p ps)
  obtain r c where p: "p = (r, c)" by (cases p)
  from Cons.prems have in_p: "inGrid grid (r, c)" by (simp add: p)
  let ?g = "setCell grid (nat r) (nat c) st"
  have g: "rect ?g" "inGrid ?g = inGrid grid"
    using Cons.prems(1) in_p by (simp_all add: rect_setCell inGrid_setCell)
  with Cons.prems have "\<forall>q \<in> set ps. inGrid ?g q" by simp
  from Cons.IH [OF g(1) this]
  have "cellAt (writeAll st ps ?g) r' c' = (if (r', c') \<in> set ps then Some st else cellAt ?g r' c')" .
  then show ?case
    by (simp add: p writeAll_Cons cellAt_setCell [OF Cons.prems(1) in_p])
qed

text \<open>
  On a rectangular grid with at least one row the pixel loop never throws: it writes
  \<open>st\<close> at the positions that pass the bounds check, and pushes exactly those.
\<close>

lemma stampPixels_eq:
  assumes "grid \<noteq> []" "rect grid"
  shows "stampPixels st mk dr dc g (grid, cells) =
         Inr (writeAll st (filter (inGrid grid) (shift dr dc g)) grid,
              cells @ map (\<lambda>(r, c). mk r c) (filter (inGrid grid) (shift dr dc g)))"
  using assms
proof (induction g arbitrary: grid cells)
  case Nil
  then show ?case by (simp add: shift_def writeAll_Nil)
next
  case (Cons p g)
  obtain prow pcol where p: "p = (prow, pcol)" by (cases p)
  obtain row0 rest where grid: "grid = row0 # rest"
    using Cons.prems(1) by (cases grid) auto
  have row0: "grid ! 0 = row0" by (simp add: grid)
  show ?case
  proof (cases "inGrid grid (prow + dr, pcol + dc)")
    case True
    let ?g = "setCell grid (nat (prow + dr)) (nat (pcol + dc)) st"
    have g: "rect ?g" "inGrid ?g = inGrid grid" "length ?g = length grid"
      using Cons.prems(2) True by (simp_all add: rect_setCell inGrid_setCell length_setCell)
    from g(3) Cons.prems(1) have ne: "?g \<noteq> []" by (metis length_0_conv)
    have "stampPixels st mk dr dc (p # g) (grid, cells) =
          stampPixels st mk dr dc g (?g, cells @ [mk (prow + dr) (pcol + dc)])"
      using True by (simp add: p grid inGrid_def Let_def)
    also note Cons.IH [OF ne g(1), unfolded g(2)]
    finally show ?thesis
      using True by (simp add: p shift_def writeAll_Cons)
  next
    case False
    then have "stampPixels st mk dr dc (p # g) (grid, cells) = stampPixels st mk dr dc g (grid, cells)"
      by (auto simp: p grid inGrid_def Let_def)
    also note Cons.IH [OF Cons.prems]
    finally show ?thesis
      using False by (simp add: p shift_def)
  qed
qed

lemma digitsLoop_eq:
  assumes "grid \<noteq> []" "rect grid"
  shows "digitsLoop st mk table widths dflt dr dcol str currentCol (grid, cells) =
         Inr (writeAll st (filter (inGrid grid) (digitsRun table widths dflt dr dcol str currentCol)) grid,
              cells @ map (\<lambda>(r, c). mk r c)
                        (filter (inGrid grid) (digitsRun table widths dflt dr dcol str currentCol)))"
  using assms
proof (induction str arbitrary: grid cells currentCol)
  case Nil
  then show ?case by (simp add: writeAll_Nil)
next
  case (Cons ch rest)
  let ?here = "case Number1 ch of None \<Rightarrow> []
      | Some d \<Rightarrow> (case table d of None \<Rightarrow> [] | Some g \<Rightarrow> shift dr (currentCol + dcol) g)"
  let ?Q = "filter (inGrid grid) ?here"
  let ?g = "writeAll st ?Q grid"
  let ?next = "currentCol + (widthOr widths (Number1 ch) dflt + 1)"
  have step: "(case Number1 ch of None \<Rightarrow> Inr (grid, cells)
        | Some d \<Rightarrow> (case table d of None \<Rightarrow> Inr (grid, cells)
                     | Some g \<Rightarrow> stampPixels st mk dr (currentCol + dcol) g (grid, cells)))
      = Inr (?g, cells @ map (\<lambda>(r, c). mk r c) ?Q)"
    by (simp add: stampPixels_eq [OF Cons.prems] writeAll_Nil split: option.splits)
  have shape: "rect ?g" "inGrid ?g = inGrid grid" "length ?g = length grid"
    using writeAll_shape [of grid ?Q st] Cons.prems(2) by simp_all
  from shape(3) Cons.prems(1) have ne: "?g \<noteq> []" by (metis length_0_conv)
  have "digitsLoop st mk table widths dflt dr dcol (ch # rest) currentCol (grid, cells) =
        digitsLoop st mk table widths dflt dr dcol rest ?next (?g, cells @ map (\<lambda>(r, c). mk r c) ?Q)"
    by (simp only: digitsLoop.simps Let_def step sum.case)
  also note Cons.IH [OF ne shape(1), unfolded shape(2)]
  finally show ?case
    by (simp add: writeAll_append)
qed

lemma setDigitAsPending_eq:
  assumes "grid \<noteq> []" "rect grid"
  shows "setDigitAsPending grid digit startRow startCol pendingCells =
         Inr (writeAll PENDING (filter (inGrid grid) (pendingFootprint digit startRow startCol)) grid,
              pendingCells @ map (\<lambda>(r, c). newPendingCell r c)
                 (filter (inGrid grid) (pendingFootprint digit startRow startCol)))"
proof -
  let ?Q = "filter (inGrid grid) (shift (startRow - 1) startCol symbols0)"
  let ?g = "writeAll PENDING ?Q grid"
  have shape: "rect ?g" "inGrid ?g = inGrid grid" "length ?g = length grid"
    using writeAll_shape [of grid ?Q PENDING] assms(2) by simp_all
  from shape(3) assms(1) have ne: "?g \<noteq> []" by (metis length_0_conv)
  show ?thesis
    by (simp add: setDigitAsPending_def Let_def stampPixels_eq [OF assms]
          digitsLoop_eq [OF ne shape(1)] shape(2) pendingFootprint_def writeAll_append)
qed

lemma setupGrid_shape:
  "setupGrid \<noteq> []" "rect setupGrid" "length setupGrid = 55" "length (setupGrid ! 0) = 182"
  by (simp_all add: setupGrid_def ROWS_def COLS_def rect_def)

lemma inGrid_setupGrid:
  "inGrid setupGrid (r, c) \<longleftrightarrow> c \<ge> 0 \<and> r \<ge> 0 \<and> c < 182 \<and> r < 55"
  by (simp add: inGrid_def setupGrid_shape)

lemma symbol_top_in_footprint:
  "(startRow, startCol + 2) \<in> set (pendingFootprint digit startRow startCol)"
  by (simp add: pendingFootprint_def shift_def symbols0_def)

text \<open>
  Claim C3, as amended. On a rectangular grid with at least one row, for every string
  and every anchor, \<^verbatim>\<open>setDigitAsPending\<close> appends to the tracked list exactly the pixels
  of the currency sign and of the digits whose absolute position is inside the grid:
  every cell it appends is inside the grid and \<^verbatim>\<open>PENDING\<close> after the call, a pixel
  outside the grid is neither written nor tracked, and every cell that is not appended
  keeps its state. Cells are appended whenever the top pixel of the currency sign,
  \<open>(startRow, startCol + 2)\<close>, is inside the grid; an anchor that leaves every pixel
  outside the grid writes nothing.
\<close>

theorem setDigitAsPending_stamp:
  assumes "grid \<noteq> []" and "rect grid"
  shows "\<exists>grid' new.
      setDigitAsPending grid digit startRow startCol pendingCells = Inr (grid', pendingCells @ new)
    \<and> new = map (\<lambda>(r, c). newPendingCell r c)
               (filter (inGrid grid) (pendingFootprint digit startRow startCol))
    \<and> (\<forall>cell \<in> set new.
          cellAt grid' (row cell) (col cell) = Some PENDING
          \<and> 0 \<le> row cell \<and> row cell < int (length grid)
          \<and> 0 \<le> col cell \<and> col cell < int (length (grid ! 0)))
    \<and> (\<forall>r c. (r, c) \<notin> set (filter (inGrid grid) (pendingFootprint digit startRow startCol))
          \<longrightarrow> cellAt grid' r c = cellAt grid r c)
    \<and> (inGrid grid (startRow, startCol + 2) \<longrightarrow> new \<noteq> [])"
proof -
  let ?Q = "filter (inGrid grid) (pendingFootprint digit startRow startCol)"
  let ?g = "writeAll PENDING ?Q grid"
  let ?new = "map (\<lambda>(r, c). newPendingCell r c) ?Q"
  have Q: "\<forall>p \<in> set ?Q. inGrid grid p" by simp
  have cell: "\<And>r c. cellAt ?g r c = (if (r, c) \<in> set ?Q then Some PENDING else cellAt grid r c)"
    by (rule cellAt_writeAll [OF assms(2) Q])
  have 1: "setDigitAsPending grid digit startRow startCol pendingCells = Inr (?g, pendingCells @ ?new)"
    by (rule setDigitAsPending_eq [OF assms])
  have 2: "\<forall>cell \<in> set ?new.
          cellAt ?g (row cell) (col cell) = Some PENDING
          \<and> 0 \<le> row cell \<and> row cell < int (length grid)
          \<and> 0 \<le> col cell \<and> col cell < int (length (grid ! 0))"
  proof
    fix cell assume "cell \<in> set ?new"
    then obtain r c where rc: "(r, c) \<in> set ?Q" "cell = newPendingCell r c"
      by auto
    from rc(1) have "inGrid grid (r, c)" by simp
    then have "0 \<le> r \<and> r < int (length grid) \<and> 0 \<le> c \<and> c < int (length (grid ! 0))"
      by (simp add: inGrid_def)
    with rc cell [of r c]
    show "cellAt ?g (row cell) (col cell) = Some PENDING
          \<and> 0 \<le> row cell \<and> row cell < int (length grid)
          \<and> 0 \<le> col cell \<and> col cell < int (length (grid ! 0))"
      by (simp add: newPendingCell_def)
  qed
  have 3: "\<forall>r c. (r, c) \<notin> set ?Q \<longrightarrow> cellAt ?g r c = cellAt grid r c"
    using cell by simp
  have 4: "inGrid grid (startRow, startCol + 2) \<longrightarrow> ?new \<noteq> []"
  proof
    assume "inGrid grid (startRow, startCol + 2)"
    with symbol_top_in_footprint [of startRow startCol digit]
    have "(startRow, startCol + 2) \<in> set ?Q" by simp
    then have "?Q \<noteq> []" by (metis empty_iff empty_set)
    then show "?new \<noteq> []" by simp
  qed
  from 1 2 3 4 show ?thesis by blast
qed

theorem setDigitAsPending_stamp_witness:
  "setupGrid \<noteq> [] \<and> rect setupGrid \<and> inGrid setupGrid (10, 10 + 2)
   \<and> (\<exists>grid' new. setDigitAsPending setupGrid ''123'' 10 10 [] = Inr (grid', new)
         \<and> new \<noteq> [] \<and> newPendingCell 10 12 \<in> set new
         \<and> cellAt grid' 10 12 = Some PENDING)"
proof -
  have h: "inGrid setupGrid (10, 10 + 2)"
    by (simp add: inGrid_setupGrid)
  from setDigitAsPending_stamp [OF setupGrid_shape(1,2), of "''123''" 10 10 "[]"]
  obtain grid' new where
    call: "setDigitAsPending setupGrid ''123'' 10 10 [] = Inr (grid', new)" and
    new: "new = map (\<lambda>(r, c). newPendingCell r c)
                  (filter (inGrid setupGrid) (pendingFootprint ''123'' 10 10))" and
    pending: "\<forall>cell \<in> set new. cellAt grid' (row cell) (col cell) = Some PENDING" and
    ne: "inGrid setupGrid (10, 10 + 2) \<longrightarrow> new \<noteq> []"
    by (elim exE conjE) (simp only: append_Nil, blast)
  from symbol_top_in_footprint [of 10 10 "''123''"] h
  have "(10, 12) \<in> set (filter (inGrid setupGrid) (pendingFootprint ''123'' 10 10))"
    by simp
  then have mem: "newPendingCell 10 12 \<in> set new"
    unfolding new by force
  with pending have "cellAt grid' (row (newPendingCell 10 12)) (col (newPendingCell 10 12)) = Some PENDING"
    by blast
  then have "cellAt grid' 10 12 = Some PENDING"
    by (simp add: newPendingCell_def)
  with h ne call mem setupGrid_shape(1,2) show ?thesis by blast
qed

text \<open>
  On the 55 x 182 grid the anchor \<open>(0, 181)\<close>, a position of the grid, leaves every pixel
  of \<open>$123\<close> to the right of the last column: nothing is written and nothing is tracked.
\<close>

lemma footprint_123_at_edge:
  "filter (inGrid setupGrid) (pendingFootprint ''123'' 0 181) = []"
  by (simp add: pendingFootprint_def shift_def symbols0_def digits_def digitsEntries_def
        digitsWidths_def widthOr_def Number1_def inGrid_setupGrid)

theorem setDigitAsPending_empty_stamp:
  "setDigitAsPending setupGrid ''123'' 0 181 [] = Inr (setupGrid, [])"
  by (simp add: setDigitAsPending_eq [OF setupGrid_shape(1,2)] footprint_123_at_edge writeAll_Nil)

section \<open>Replacing the immune total\<close>

lemma immuneFootprint_layout:
  "immuneFootprint digit =
     shift 39 (180 - immuneTotalWidth digit) symbolDoubled
     @ digitsRun digitsDoubled digitsDoubledWidths 6 41 (- 1) digit (188 - immuneTotalWidth digit)"
  by (simp add: immuneFootprint_def Let_def ROWS_def COLS_def symbolDoubledWidth_def)

lemma clearBody_eq:
  "clearBody grid cell = (if inGrid grid (coords cell) then setCell grid (nat (row cell)) (nat (col cell)) DEAD else grid)"
  by (auto simp: clearBody_def inGrid_def coords_def)

lemma clearPrevious_eq:
  assumes "rect grid"
  shows "clearPrevious grid previous = writeAll DEAD (filter (inGrid grid) (map coords previous)) grid"
  using assms
proof (induction previous arbitrary: grid)
  case Nil
  then show ?case by (simp add: clearPrevious_def writeAll_Nil)
next
  case (Cons cell previous)
  show ?case
  proof (cases "inGrid grid (coords cell)")
    case True
    then have in_c: "inGrid grid (row cell, col cell)" by (simp add: coords_def)
    let ?g = "setCell grid (nat (row cell)) (nat (col cell)) DEAD"
    have g: "rect ?g" "inGrid ?g = inGrid grid"
      using Cons.prems in_c by (simp_all add: rect_setCell inGrid_setCell)
    have "clearPrevious grid (cell # previous) = clearPrevious ?g previous"
      using True by (simp add: clearPrevious_def clearBody_eq)
    also note Cons.IH [OF g(1), unfolded g(2)]
    finally show ?thesis
      using True by (simp add: writeAll_Cons coords_def)
  next
    case False
    then have "clearPrevious grid (cell # previous) = clearPrevious grid previous"
      by (simp add: clearPrevious_def clearBody_eq)
    also note Cons.IH [OF Cons.prems]
    finally show ?thesis
      using False by simp
  qed
qed

lemma symbol_then_digits:
  assumes "grid \<noteq> []" "rect grid"
  shows "(case stampPixels st mk dr dc g (grid, cells) of
            Inl e \<Rightarrow> Inl e
          | Inr s \<Rightarrow> digitsLoop st mk table widths dflt dr' dcol str cc s) =
         Inr (writeAll st (filter (inGrid grid) (shift dr dc g @ digitsRun table widths dflt dr' dcol str cc)) grid,
              cells @ map (\<lambda>(r, c). mk r c)
                 (filter (inGrid grid) (shift dr dc g @ digitsRun table widths dflt dr' dcol str cc)))"
proof -
  let ?Q = "filter (inGrid grid) (shift dr dc g)"
  let ?g = "writeAll st ?Q grid"
  have shape: "rect ?g" "inGrid ?g = inGrid grid" "length ?g = length grid"
    using writeAll_shape [of grid ?Q st] assms(2) by simp_all
  from shape(3) assms(1) have ne: "?g \<noteq> []" by (metis length_0_conv)
  show ?thesis
    by (simp add: stampPixels_eq [OF assms] digitsLoop_eq [OF ne shape(1)] shape(2) writeAll_append)
qed

lemma setTotalAsImmune_eq:
  assumes "grid \<noteq> []" "rect grid"
  shows "setTotalAsImmune String' grid total' previous =
         Inr (writeAll IMMUNE (filter (inGrid grid) (immuneFootprint (String' (Math_floor (Some total'))))) (clearPrevious grid previous),
              map (\<lambda>(r, c). newImmuneCell r c) (filter (inGrid grid) (immuneFootprint (String' (Math_floor (Some total'))))))"
proof -
  let ?P = "filter (inGrid grid) (map coords previous)"
  let ?g1 = "clearPrevious grid previous"
  have g1: "?g1 = writeAll DEAD ?P grid" by (rule clearPrevious_eq [OF assms(2)])
  have s1: "rect ?g1" "inGrid ?g1 = inGrid grid" "length ?g1 = length grid"
    unfolding g1 using writeAll_shape [of grid ?P DEAD] assms(2) by simp_all
  from s1(3) assms(1) have ne1: "?g1 \<noteq> []" by (metis length_0_conv)
  show ?thesis
    unfolding setTotalAsImmune_def immuneFootprint_def Let_def
    by (simp only: symbol_then_digits [OF ne1 s1(1)] s1(2) append_Nil)
qed

lemma coords_newImmuneCell: "map coords (map (\<lambda>(r, c). newImmuneCell r c) ps) = ps"
  by (induction ps) (auto simp: coords_def newImmuneCell_def)

lemma newImmuneCell_coords: "newImmuneCell (row cell) (col cell) = cell"
  by (simp add: newImmuneCell_def)

lemma cellAt_clearPrevious:
  assumes "rect grid"
  shows "cellAt (clearPrevious grid previous) r c =
         (if (r, c) \<in> set (map coords previous) \<and> inGrid grid (r, c) then Some DEAD else cellAt grid r c)"
proof -
  have "\<forall>p \<in> set (filter (inGrid grid) (map coords previous)). inGrid grid p" by simp
  from cellAt_writeAll [OF assms this, of DEAD r c] show ?thesis
    by (simp add: clearPrevious_eq [OF assms])
qed

lemma clearPrevious_shape:
  assumes "rect grid"
  shows "rect (clearPrevious grid previous)" "inGrid (clearPrevious grid previous) = inGrid grid"
    "length (clearPrevious grid previous) = length grid"
  using writeAll_shape [of grid "filter (inGrid grid) (map coords previous)" DEAD] assms
  by (simp_all add: clearPrevious_eq [OF assms])

lemma setTotalAsImmune_second:
  assumes "grid \<noteq> []" "rect grid" "setTotalAsImmune String' grid t1 previous = Inr (g1, s1)"
  shows "setTotalAsImmune String' g1 t2 s1 =
         Inr (writeAll IMMUNE (filter (inGrid grid) (immuneFootprint (String' (Math_floor (Some t2))))) (clearPrevious g1 s1),
              map (\<lambda>(r, c). newImmuneCell r c) (filter (inGrid grid) (immuneFootprint (String' (Math_floor (Some t2))))))"
proof -
  let ?Q1 = "filter (inGrid grid) (immuneFootprint (String' (Math_floor (Some t1))))"
  let ?c1 = "clearPrevious grid previous"
  have c1: "rect ?c1" "inGrid ?c1 = inGrid grid" "length ?c1 = length grid"
    by (rule clearPrevious_shape [OF assms(2)])+
  have Q1: "\<forall>p \<in> set ?Q1. inGrid ?c1 p" by (simp add: c1(2))
  from assms(3) have g1_def: "g1 = writeAll IMMUNE ?Q1 ?c1"
    by (simp add: setTotalAsImmune_eq [OF assms(1,2)])
  have g1: "rect g1" "inGrid g1 = inGrid grid" "length g1 = length grid"
    unfolding g1_def using writeAll_shape [OF c1(1) Q1, of IMMUNE] c1 by simp_all
  from g1(3) assms(1) have ne1: "g1 \<noteq> []" by (metis length_0_conv)
  show ?thesis
    using setTotalAsImmune_eq [OF ne1 g1(1), of String' t2 s1] by (simp only: g1(2))
qed

lemma cellAt_setTotalAsImmune:
  assumes "grid \<noteq> []" "rect grid"
    and "setTotalAsImmune String' grid total' previous = Inr (g', s')"
  shows "cellAt g' r c =
     (if (r, c) \<in> set (map coords s') then Some IMMUNE
      else if (r, c) \<in> set (map coords previous) \<and> inGrid grid (r, c) then Some DEAD
      else cellAt grid r c)"
proof -
  let ?Q = "filter (inGrid grid) (immuneFootprint (String' (Math_floor (Some total'))))"
  let ?c = "clearPrevious grid previous"
  from assms(3) have g': "g' = writeAll IMMUNE ?Q ?c" and s': "s' = map (\<lambda>(r, c). newImmuneCell r c) ?Q"
    by (simp_all add: setTotalAsImmune_eq [OF assms(1,2)])
  have c: "rect ?c" "inGrid ?c = inGrid grid"
    by (rule clearPrevious_shape [OF assms(2)])+
  have Q: "\<forall>p \<in> set ?Q. inGrid ?c p" by (simp add: c(2))
  have "map coords s' = ?Q" unfolding s' by (rule coords_newImmuneCell)
  then show ?thesis
    unfolding g' by (simp only: cellAt_writeAll [OF c(1) Q] cellAt_clearPrevious [OF assms(2)])
qed

text \<open>
  Claim C4. On a rectangular grid with at least one row, \<^verbatim>\<open>setTotalAsImmune\<close> first sets
  every cell of the previous list that lies inside the grid to \<^verbatim>\<open>DEAD\<close>, whatever it
  held, and then stamps the new total as \<^verbatim>\<open>IMMUNE\<close>: the cells it returns are exactly
  the pixels of the printed total (the doubled currency sign and the doubled digits,
  laid out as \<open>immuneFootprint_layout\<close> spells out) that lie inside the grid, these cells
  are \<^verbatim>\<open>IMMUNE\<close> afterwards, the cleared ones that are not among them are \<^verbatim>\<open>DEAD\<close>, and every
  other cell is as before. After a second call, made with the cells the first call
  returned, every cell of the first result that is not in the second result is
  \<^verbatim>\<open>DEAD\<close>: none of them is left \<^verbatim>\<open>IMMUNE\<close>. (\<open>String'\<close> is the built-in that prints the
  total; the statement holds whatever it prints.)
\<close>

theorem setTotalAsImmune_replaces:
  assumes "grid \<noteq> []" and "rect grid"
  shows "\<exists>g1 s1 g2 s2.
      setTotalAsImmune String' grid t1 previous = Inr (g1, s1)
    \<and> setTotalAsImmune String' g1 t2 s1 = Inr (g2, s2)
    \<and> s1 = map (\<lambda>(r, c). newImmuneCell r c)
              (filter (inGrid grid) (immuneFootprint (String' (Math_floor (Some t1)))))
    \<and> s2 = map (\<lambda>(r, c). newImmuneCell r c)
              (filter (inGrid grid) (immuneFootprint (String' (Math_floor (Some t2)))))
    \<and> (\<forall>cell \<in> set previous. inGrid grid (coords cell) \<longrightarrow>
          cellAt (clearPrevious grid previous) (row cell) (col cell) = Some DEAD)
    \<and> g1 = writeAll IMMUNE (map coords s1) (clearPrevious grid previous)
    \<and> g2 = writeAll IMMUNE (map coords s2) (clearPrevious g1 s1)
    \<and> (\<forall>r c. cellAt g1 r c =
          (if (r, c) \<in> set (map coords s1) then Some IMMUNE
           else if (r, c) \<in> set (map coords previous) \<and> inGrid grid (r, c) then Some DEAD
           else cellAt grid r c))
    \<and> (\<forall>r c. cellAt g2 r c =
          (if (r, c) \<in> set (map coords s2) then Some IMMUNE
           else if (r, c) \<in> set (map coords s1) then Some DEAD
           else cellAt g1 r c))
    \<and> (\<forall>cell \<in> set s1. cellAt g1 (row cell) (col cell) = Some IMMUNE)
    \<and> (\<forall>cell \<in> set s2. cellAt g2 (row cell) (col cell) = Some IMMUNE)
    \<and> (\<forall>cell \<in> set s1. cell \<notin> set s2 \<longrightarrow> cellAt g2 (row cell) (col cell) = Some DEAD)"
proof -
  let ?Q1 = "filter (inGrid grid) (immuneFootprint (String' (Math_floor (Some t1))))"
  let ?c1 = "clearPrevious grid previous"
  let ?g1 = "writeAll IMMUNE ?Q1 ?c1"
  let ?s1 = "map (\<lambda>(r, c). newImmuneCell r c) ?Q1"
  have c1: "rect ?c1" "inGrid ?c1 = inGrid grid" "length ?c1 = length grid"
    by (rule clearPrevious_shape [OF assms(2)])+
  have Q1: "\<forall>p \<in> set ?Q1. inGrid ?c1 p" by (simp add: c1(2))
  have g1: "rect ?g1" "inGrid ?g1 = inGrid grid" "length ?g1 = length grid"
    using writeAll_shape [OF c1(1) Q1, of IMMUNE] c1 by simp_all
  from g1(3) assms(1) have ne1: "?g1 \<noteq> []" by (metis length_0_conv)
  let ?Q2 = "filter (inGrid grid) (immuneFootprint (String' (Math_floor (Some t2))))"
  let ?c2 = "clearPrevious ?g1 ?s1"
  let ?g2 = "writeAll IMMUNE ?Q2 ?c2"
  let ?s2 = "map (\<lambda>(r, c). newImmuneCell r c) ?Q2"
  have co1: "map coords ?s1 = ?Q1" by (rule coords_newImmuneCell)
  have co2: "map coords ?s2 = ?Q2" by (rule coords_newImmuneCell)
  have call1: "setTotalAsImmune String' grid t1 previous = Inr (?g1, ?s1)"
    by (rule setTotalAsImmune_eq [OF assms])
  have call2: "setTotalAsImmune String' ?g1 t2 ?s1 = Inr (?g2, ?s2)"
    using setTotalAsImmune_eq [OF ne1 g1(1), of String' t2 ?s1] by (simp only: g1(2))
  have cleared: "\<forall>cell \<in> set previous. inGrid grid (coords cell) \<longrightarrow>
          cellAt ?c1 (row cell) (col cell) = Some DEAD"
  proof (intro ballI impI)
    fix cell assume "cell \<in> set previous" "inGrid grid (coords cell)"
    then show "cellAt ?c1 (row cell) (col cell) = Some DEAD"
      by (simp add: cellAt_clearPrevious [OF assms(2)] coords_def [symmetric])
  qed
  have at1: "\<forall>r c. cellAt ?g1 r c =
          (if (r, c) \<in> set (map coords ?s1) then Some IMMUNE
           else if (r, c) \<in> set (map coords previous) \<and> inGrid grid (r, c) then Some DEAD
           else cellAt grid r c)"
    using cellAt_setTotalAsImmune [OF assms call1] by blast
  have in1: "\<And>r c. (r, c) \<in> set (map coords ?s1) \<Longrightarrow> inGrid ?g1 (r, c)"
    unfolding co1 by (simp add: g1(2))
  have at2: "\<forall>r c. cellAt ?g2 r c =
          (if (r, c) \<in> set (map coords ?s2) then Some IMMUNE
           else if (r, c) \<in> set (map coords ?s1) then Some DEAD
           else cellAt ?g1 r c)"
  proof (intro allI)
    fix r c
    show "cellAt ?g2 r c =
          (if (r, c) \<in> set (map coords ?s2) then Some IMMUNE
           else if (r, c) \<in> set (map coords ?s1) then Some DEAD
           else cellAt ?g1 r c)"
      using cellAt_setTotalAsImmune [OF ne1 g1(1) call2, of r c] in1 [of r c] by auto
  qed
  have imm1: "\<forall>cell \<in> set ?s1. cellAt ?g1 (row cell) (col cell) = Some IMMUNE"
  proof
    fix cell assume "cell \<in> set ?s1"
    then have "(row cell, col cell) \<in> set (map coords ?s1)"
      by (force simp: coords_def)
    with at1 show "cellAt ?g1 (row cell) (col cell) = Some IMMUNE" by simp
  qed
  have imm2: "\<forall>cell \<in> set ?s2. cellAt ?g2 (row cell) (col cell) = Some IMMUNE"
  proof
    fix cell assume "cell \<in> set ?s2"
    then have "(row cell, col cell) \<in> set (map coords ?s2)"
      by (force simp: coords_def)
    with at2 show "cellAt ?g2 (row cell) (col cell) = Some IMMUNE" by simp
  qed
  have gone: "\<forall>cell \<in> set ?s1. cell \<notin> set ?s2 \<longrightarrow> cellAt ?g2 (row cell) (col cell) = Some DEAD"
  proof (intro ballI impI)
    fix cell assume cell: "cell \<in> set ?s1" "cell \<notin> set ?s2"
    from cell(1) have a: "(row cell, col cell) \<in> set (map coords ?s1)"
      by (force simp: coords_def)
    have b: "(row cell, col cell) \<notin> set (map coords ?s2)"
    proof
      assume "(row cell, col cell) \<in> set (map coords ?s2)"
      then have "(row cell, col cell) \<in> set ?Q2" by (simp only: co2)
      then have "newImmuneCell (row cell) (col cell) \<in> set ?s2" by force
      with cell(2) show False by (simp add: newImmuneCell_coords)
    qed
    from at2 a b show "cellAt ?g2 (row cell) (col cell) = Some DEAD" by simp
  qed
  have shape1: "?g1 = writeAll IMMUNE (map coords ?s1) ?c1"
    by (simp only: co1)
  have shape2: "?g2 = writeAll IMMUNE (map coords ?s2) ?c2"
    by (simp only: co2)
  from call1 call2 cleared shape1 shape2 at1 at2 imm1 imm2 gone show ?thesis by blast
qed

lemma smallString_100_250:
  "smallString (Math_floor (Some (Num 100))) = ''100''"
  "smallString (Math_floor (Some (Num 250))) = ''250''"
  by code_simp+

lemma footprint_100_cells:
  "(48, 165) \<in> set (immuneFootprint ''100'')" "(42, 164) \<notin> set (immuneFootprint ''100'')"
  by code_simp+

lemma footprint_250_cells:
  "(48, 165) \<notin> set (immuneFootprint ''250'')" "(42, 164) \<in> set (immuneFootprint ''250'')"
  by code_simp+

theorem setTotalAsImmune_replaces_witness:
  "setupGrid \<noteq> [] \<and> rect setupGrid
   \<and> smallString (Math_floor (Some (Num 100))) = ''100''
   \<and> smallString (Math_floor (Some (Num 250))) = ''250''
   \<and> (\<exists>g1 s1 g2 s2.
        setTotalAsImmune smallString setupGrid (Num 100) [] = Inr (g1, s1)
      \<and> setTotalAsImmune smallString g1 (Num 250) s1 = Inr (g2, s2)
      \<and> newImmuneCell 48 165 \<in> set s1 \<and> newImmuneCell 48 165 \<notin> set s2
      \<and> cellAt g1 48 165 = Some IMMUNE \<and> cellAt g2 48 165 = Some DEAD
      \<and> newImmuneCell 42 164 \<notin> set s1 \<and> newImmuneCell 42 164 \<in> set s2
      \<and> cellAt g1 42 164 = Some DEAD \<and> cellAt g2 42 164 = Some IMMUNE)"
proof -
  note shape = setupGrid_shape(1,2)
  from setTotalAsImmune_replaces [OF shape, of smallString "Num 100" "[]" "Num 250"]
  obtain g1 s1 g2 s2 where
    call1: "setTotalAsImmune smallString setupGrid (Num 100) [] = Inr (g1, s1)" and
    call2: "setTotalAsImmune smallString g1 (Num 250) s1 = Inr (g2, s2)" and
    s1: "s1 = map (\<lambda>(r, c). newImmuneCell r c) (filter (inGrid setupGrid) (immuneFootprint ''100''))" and
    s2: "s2 = map (\<lambda>(r, c). newImmuneCell r c) (filter (inGrid setupGrid) (immuneFootprint ''250''))" and
    at1: "\<forall>r c. cellAt g1 r c =
          (if (r, c) \<in> set (map coords s1) then Some IMMUNE
           else if (r, c) \<in> set (map coords []) \<and> inGrid setupGrid (r, c) then Some DEAD
           else cellAt setupGrid r c)" and
    at2: "\<forall>r c. cellAt g2 r c =
          (if (r, c) \<in> set (map coords s2) then Some IMMUNE
           else if (r, c) \<in> set (map coords s1) then Some DEAD
           else cellAt g1 r c)"
    unfolding smallString_100_250 by blast
  have co1: "map coords s1 = filter (inGrid setupGrid) (immuneFootprint ''100'')"
    unfolding s1 by (rule coords_newImmuneCell)
  have co2: "map coords s2 = filter (inGrid setupGrid) (immuneFootprint ''250'')"
    unfolding s2 by (rule coords_newImmuneCell)
  have m1: "(48, 165) \<in> set (map coords s1)" "(42, 164) \<notin> set (map coords s1)"
    unfolding co1 using footprint_100_cells by (simp_all add: inGrid_setupGrid)
  have m2: "(48, 165) \<notin> set (map coords s2)" "(42, 164) \<in> set (map coords s2)"
    unfolding co2 using footprint_250_cells by (simp_all add: inGrid_setupGrid)
  have mem: "(newImmuneCell r c \<in> set s) = ((r, c) \<in> set (map coords s))" for r c s
  proof
    assume "newImmuneCell r c \<in> set s"
    then have "coords (newImmuneCell r c) \<in> set (map coords s)" by simp
    then show "(r, c) \<in> set (map coords s)" by (simp add: coords_def newImmuneCell_def)
  next
    assume "(r, c) \<in> set (map coords s)"
    then obtain cell where cell: "cell \<in> set s" "coords cell = (r, c)" by auto
    from cell(2) have "newImmuneCell r c = cell"
      using newImmuneCell_coords [of cell] by (simp add: coords_def)
    with cell(1) show "newImmuneCell r c \<in> set s" by simp
  qed
  have d: "cellAt setupGrid 42 164 = Some DEAD"
    by (simp add: setupGrid_def ROWS_def COLS_def cellAt_def rowGet_def)
  from at1 m1 d have a1: "cellAt g1 48 165 = Some IMMUNE" "cellAt g1 42 164 = Some DEAD"
    by simp_all
  from at2 m1 m2 have a2: "cellAt g2 48 165 = Some DEAD" "cellAt g2 42 164 = Some IMMUNE"
    by simp_all
  from shape smallString_100_250 call1 call2 m1 m2 a1 a2 show ?thesis
    unfolding mem by blast
qed

section \<open>The expiry callback\<close>

lemma expireCell_eq:
  assumes "0 \<le> row cell" "row cell < int (length (gridRef ch))"
  shows "expireCell stamped cell ch =
     Inr (ch\<lparr>gridRef :=
                (if cellAt (gridRef ch) (row cell) (col cell) = Some stamped
                 then setCell (gridRef ch) (nat (row cell)) (nat (col cell)) ALIVE
                 else gridRef ch),
              pendingCellsRef :=
                filter (\<lambda>c. \<not> (row c = row cell \<and> col c = col cell)) (pendingCellsRef ch)\<rparr>)"
  using assms by (auto simp: expireCell_def cellAt_def)

lemma cellAt_setCell_same:
  assumes "cellAt grid r c = Some s"
  shows "cellAt (setCell grid (nat r) (nat c) st) r c = Some st"
proof -
  from assms have "0 \<le> r \<and> r < int (length grid) \<and> 0 \<le> c \<and> c < int (length (grid ! nat r))"
    by (auto simp: cellAt_def rowGet_def split: if_splits)
  then have "nat r < length grid" "nat c < length (grid ! nat r)" "0 \<le> r" "0 \<le> c"
    by auto
  then show ?thesis
    by (simp add: cellAt_def rowGet_def setCell_in_row)
qed

text \<open>
  Claim C5. For a tracked cell (its row is a row of the grid) the expiry callback
  returns; it sets the cell to \<^verbatim>\<open>ALIVE\<close> when the cell still holds the state it was
  stamped with (\<^verbatim>\<open>PENDING\<close> for a donation stamp, \<^verbatim>\<open>INITIAL\<close> for the initial total), and
  leaves the grid as it is when the cell holds anything else; in both cases no entry
  with the cell's position remains in the tracked list, and the other entries stay.
\<close>

theorem expiry_callback_guard:
  assumes "0 \<le> row cell" and "row cell < int (length (gridRef ch))"
    and "stamped = PENDING \<or> stamped = INITIAL"
  shows "\<exists>ch'. (if stamped = PENDING then pendingTimeout cell ch else initialTimeout cell ch) = Inr ch'
    \<and> (cellAt (gridRef ch) (row cell) (col cell) = Some stamped \<longrightarrow>
          gridRef ch' = setCell (gridRef ch) (nat (row cell)) (nat (col cell)) ALIVE
          \<and> cellAt (gridRef ch') (row cell) (col cell) = Some ALIVE)
    \<and> (cellAt (gridRef ch) (row cell) (col cell) \<noteq> Some stamped \<longrightarrow> gridRef ch' = gridRef ch)
    \<and> pendingCellsRef ch' =
          filter (\<lambda>c. \<not> (row c = row cell \<and> col c = col cell)) (pendingCellsRef ch)
    \<and> (\<forall>c \<in> set (pendingCellsRef ch'). \<not> (row c = row cell \<and> col c = col cell))"
proof -
  let ?ch' = "ch\<lparr>gridRef :=
                (if cellAt (gridRef ch) (row cell) (col cell) = Some stamped
                 then setCell (gridRef ch) (nat (row cell)) (nat (col cell)) ALIVE
                 else gridRef ch),
              pendingCellsRef :=
                filter (\<lambda>c. \<not> (row c = row cell \<and> col c = col cell)) (pendingCellsRef ch)\<rparr>"
  have "(if stamped = PENDING then pendingTimeout cell ch else initialTimeout cell ch)
        = expireCell stamped cell ch"
    using assms(3) by (auto simp: pendingTimeout_def initialTimeout_def)
  then have 1: "(if stamped = PENDING then pendingTimeout cell ch else initialTimeout cell ch) = Inr ?ch'"
    by (simp only: expireCell_eq [OF assms(1,2)])
  have 2: "cellAt (gridRef ch) (row cell) (col cell) = Some stamped \<longrightarrow>
          gridRef ?ch' = setCell (gridRef ch) (nat (row cell)) (nat (col cell)) ALIVE
          \<and> cellAt (gridRef ?ch') (row cell) (col cell) = Some ALIVE"
    by (simp add: cellAt_setCell_same)
  have 3: "cellAt (gridRef ch) (row cell) (col cell) \<noteq> Some stamped \<longrightarrow> gridRef ?ch' = gridRef ch"
    by simp
  have 4: "pendingCellsRef ?ch' =
          filter (\<lambda>c. \<not> (row c = row cell \<and> col c = col cell)) (pendingCellsRef ch)"
    by simp
  have 5: "\<forall>c \<in> set (pendingCellsRef ?ch'). \<not> (row c = row cell \<and> col c = col cell)"
    by simp
  from 1 2 3 4 5 show ?thesis by blast
qed

theorem expiry_callback_guard_witness:
  "0 \<le> row \<lparr>row = 0, col = 3, timeout = Some 0\<rparr>
   \<and> row \<lparr>row = 0, col = 3, timeout = Some 0\<rparr> < int (length (gridRef demoChannel))
   \<and> cellAt (gridRef demoChannel) 0 3 = Some PENDING
   \<and> cellAt (gridRef demoChannel) 0 0 = Some DEAD
   \<and> (\<exists>ch'. pendingTimeout \<lparr>row = 0, col = 3, timeout = Some 0\<rparr> demoChannel = Inr ch'
          \<and> cellAt (gridRef ch') 0 3 = Some ALIVE
          \<and> pendingCellsRef ch' = [\<lparr>row = 0, col = 0, timeout = Some 1\<rparr>])
   \<and> (\<exists>ch'. pendingTimeout \<lparr>row = 0, col = 0, timeout = Some 1\<rparr> demoChannel = Inr ch'
          \<and> gridRef ch' = demoGrid
          \<and> pendingCellsRef ch' = [\<lparr>row = 0, col = 3, timeout = Some 0\<rparr>])"
proof -
  let ?a = "\<lparr>row = 0, col = 3, timeout = Some 0\<rparr> :: PendingCell"
  let ?b = "\<lparr>row = 0, col = 0, timeout = Some 1\<rparr> :: PendingCell"
  have g: "gridRef demoChannel = demoGrid" "pendingCellsRef demoChannel = [?a, ?b]"
    by (simp_all add: demoChannel_def)
  have ha: "0 \<le> row ?a" "row ?a < int (length (gridRef demoChannel))"
    by (simp_all add: g demoGrid_def)
  have hb: "0 \<le> row ?b" "row ?b < int (length (gridRef demoChannel))"
    by (simp_all add: g demoGrid_def)
  have p: "PENDING = PENDING \<or> PENDING = INITIAL" by simp
  have ca: "cellAt (gridRef demoChannel) 0 3 = Some PENDING"
    by (simp add: g demoGrid_def cellAt_def rowGet_def)
  have cb: "cellAt (gridRef demoChannel) 0 0 = Some DEAD"
    by (simp add: g demoGrid_def cellAt_def rowGet_def)
  from expiry_callback_guard [OF ha p] ca g
  have A: "\<exists>ch'. pendingTimeout ?a demoChannel = Inr ch'
          \<and> cellAt (gridRef ch') 0 3 = Some ALIVE
          \<and> pendingCellsRef ch' = [?b]"
    by auto
  from expiry_callback_guard [OF hb p] cb g
  have B: "\<exists>ch'. pendingTimeout ?b demoChannel = Inr ch'
          \<and> gridRef ch' = demoGrid
          \<and> pendingCellsRef ch' = [?a]"
    by auto
  from ha ca cb A B show ?thesis by blast
qed

section \<open>The placement search ends\<close>

lemma placementLoop_spec:
  assumes "attempts < maxAttempts"
  shows "\<exists>n. placementLoop overlaps floorRandom maxX maxY attempts = (fst (candidate floorRandom maxX maxY (n - 1)), snd (candidate floorRandom maxX maxY (n - 1)), n)
     \<and> attempts < n \<and> n \<le> maxAttempts
     \<and> (\<forall>k. attempts \<le> k \<and> k < n - 1 \<longrightarrow> overlaps (fst (candidate floorRandom maxX maxY k)) (snd (candidate floorRandom maxX maxY k)))
     \<and> (n < maxAttempts \<longrightarrow> \<not> overlaps (fst (candidate floorRandom maxX maxY (n - 1))) (snd (candidate floorRandom maxX maxY (n - 1))))"
  using assms
proof (induction overlaps floorRandom maxX maxY attempts rule: placementLoop.induct)
  case (1 overlaps floorRandom maxX maxY attempts)
  obtain startX startY where c: "candidate floorRandom maxX maxY attempts = (startX, startY)"
    by (cases "candidate floorRandom maxX maxY attempts")
  show ?case
  proof (cases "overlaps startX startY \<and> attempts + 1 < maxAttempts")
    case True
    from "1.IH" [OF c [symmetric] True] True
    obtain n where n: "placementLoop overlaps floorRandom maxX maxY (attempts + 1) =
        (fst (candidate floorRandom maxX maxY (n - 1)), snd (candidate floorRandom maxX maxY (n - 1)), n)"
      "attempts + 1 < n" "n \<le> maxAttempts"
      "\<forall>k. attempts + 1 \<le> k \<and> k < n - 1 \<longrightarrow> overlaps (fst (candidate floorRandom maxX maxY k)) (snd (candidate floorRandom maxX maxY k))"
      "n < maxAttempts \<longrightarrow> \<not> overlaps (fst (candidate floorRandom maxX maxY (n - 1))) (snd (candidate floorRandom maxX maxY (n - 1)))"
      by blast
    have "placementLoop overlaps floorRandom maxX maxY attempts = placementLoop overlaps floorRandom maxX maxY (attempts + 1)"
      using True c by (subst placementLoop.simps) simp
    moreover have "\<forall>k. attempts \<le> k \<and> k < n - 1 \<longrightarrow> overlaps (fst (candidate floorRandom maxX maxY k)) (snd (candidate floorRandom maxX maxY k))"
    proof (intro allI impI)
      fix k assume k: "attempts \<le> k \<and> k < n - 1"
      show "overlaps (fst (candidate floorRandom maxX maxY k)) (snd (candidate floorRandom maxX maxY k))"
      proof (cases "k = attempts")
        case True
        with \<open>overlaps startX startY \<and> attempts + 1 < maxAttempts\<close> c show ?thesis by simp
      next
        case False
        with k have "attempts + 1 \<le> k \<and> k < n - 1" by simp
        with n(4) show ?thesis by blast
      qed
    qed
    ultimately show ?thesis using n by (intro exI [of _ n]) simp
  next
    case False
    have "placementLoop overlaps floorRandom maxX maxY attempts = (startX, startY, attempts + 1)"
      using False c by (subst placementLoop.simps) auto
    with False c "1.prems" show ?thesis
      by (intro exI [of _ "attempts + 1"]) auto
  qed
qed

lemma placementLoop_v1_first:
  assumes "\<not> inExcludeZone (candidate floorRandom maxX maxY (n + m))"
    and "\<forall>k < m. inExcludeZone (candidate floorRandom maxX maxY (n + k))"
  shows "placementLoop_v1 floorRandom maxX maxY n = Some (candidate floorRandom maxX maxY (n + m))"
  using assms
proof (induction m arbitrary: n)
  case 0
  then show ?case by (subst placementLoop_v1.simps) simp
next
  case (Suc m)
  from Suc.prems(2) have "inExcludeZone (candidate floorRandom maxX maxY n)"
    by (metis add.right_neutral zero_less_Suc)
  then have "placementLoop_v1 floorRandom maxX maxY n = placementLoop_v1 floorRandom maxX maxY (n + 1)"
    by (subst placementLoop_v1.simps) simp
  also have "\<dots> = Some (candidate floorRandom maxX maxY (n + 1 + m))"
  proof (rule Suc.IH)
    show "\<not> inExcludeZone (candidate floorRandom maxX maxY (n + 1 + m))"
      using Suc.prems(1) by simp
    show "\<forall>k<m. inExcludeZone (candidate floorRandom maxX maxY (n + 1 + k))"
      using Suc.prems(2) by (metis Suc_less_eq add_Suc_right add_Suc_shift Suc_eq_plus1)
  qed
  finally show ?case by simp
qed

lemma placementLoop_v1_Some:
  assumes "placementLoop_v1 floorRandom maxX maxY n = Some p"
  shows "\<exists>k. \<not> inExcludeZone (candidate floorRandom maxX maxY k)"
proof (rule placementLoop_v1.raw_induct
    [OF _ assms, where P = "\<lambda>r x y n p. \<exists>k. \<not> inExcludeZone (candidate r x y k)"])
  fix f :: "(nat \<Rightarrow> int \<Rightarrow> int) \<Rightarrow> int \<Rightarrow> int \<Rightarrow> nat \<Rightarrow> (int \<times> int) option"
  fix r x y n p
  assume IH: "\<And>r x y n p. f r x y n = Some p \<Longrightarrow> \<exists>k. \<not> inExcludeZone (candidate r x y k)"
    and step: "(if inExcludeZone (candidate r x y n) then f r x y (n + 1)
               else Some (candidate r x y n)) = Some p"
  show "\<exists>k. \<not> inExcludeZone (candidate r x y k)"
  proof (cases "inExcludeZone (candidate r x y n)")
    case True
    with step have "f r x y (n + 1) = Some p" by simp
    then show ?thesis by (rule IH)
  next
    case False
    then show ?thesis by blast
  qed
qed

lemma placementLoop_v1_stuck:
  assumes "\<forall>k. inExcludeZone (candidate floorRandom maxX maxY k)"
  shows "placementLoop_v1 floorRandom maxX maxY n = None"
proof (rule ccontr)
  assume "placementLoop_v1 floorRandom maxX maxY n \<noteq> None"
  then obtain p where "placementLoop_v1 floorRandom maxX maxY n = Some p" by blast
  from placementLoop_v1_Some [OF this] assms show False by blast
qed

lemma maxY_of_5: "maxY_of smallString (Some (Num 5)) = 170"
  by (simp add: maxY_of_def smallString_def Math_floor_def COLS_def)

lemma candidate_stuck: "candidate stuckRandom maxX_of (maxY_of smallString (Some (Num 5))) k = (46, 169)"
  by (simp add: candidate_def stuckRandom_def maxX_of_def maxY_of_5 ROWS_def)

lemma candidate_zero: "candidate zeroRandom maxX maxY k = (0, 0)"
  by (simp add: candidate_def zeroRandom_def)

lemma stuck_in_zone: "inExcludeZone (46, 169)"
  by (simp add: inExcludeZone_def ROWS_def COLS_def excludeBottomRows_def excludeRightCols_def)

lemma origin_outside_zone: "\<not> inExcludeZone (0, 0)"
  by (simp add: inExcludeZone_def ROWS_def COLS_def excludeBottomRows_def excludeRightCols_def)

lemma overlap_at_stuck:
  "wouldOverlapImmune smallString [\<lparr>row = 46, col = 171\<rparr>] (Some (Num 5)) 46 169"
  by (simp add: wouldOverlapImmune_def symbols0_def)

text \<open>
  Claim C7, as amended. In the immune-aware variant the search always returns a
  position, after at least one and at most 50 attempts, whatever the random draws are
  and however numbers are printed: the candidate it returns is the last one drawn,
  every candidate before it overlapped the immune set, and it is free of overlap unless
  the 50 attempts are used up; when all of the first 50 candidates overlap, the 50th is
  returned all the same. The older variant, which rejects the candidates inside the
  bottom-right zone, has no cap: it returns the first candidate outside the zone,
  however many attempts that takes.
\<close>

theorem placement_search:
  "(\<exists>x y n. choosePlacement String' immuneCells floorRandom rawAmount = (x, y, n)
      \<and> 1 \<le> n \<and> n \<le> 50
      \<and> (x, y) = candidate floorRandom maxX_of (maxY_of String' rawAmount) (n - 1)
      \<and> (\<forall>k < n - 1. wouldOverlapImmune String' immuneCells rawAmount
             (fst (candidate floorRandom maxX_of (maxY_of String' rawAmount) k))
             (snd (candidate floorRandom maxX_of (maxY_of String' rawAmount) k)))
      \<and> (n < 50 \<longrightarrow> \<not> wouldOverlapImmune String' immuneCells rawAmount x y))
   \<and> ((\<forall>k < 50. wouldOverlapImmune String' immuneCells rawAmount
             (fst (candidate floorRandom maxX_of (maxY_of String' rawAmount) k))
             (snd (candidate floorRandom maxX_of (maxY_of String' rawAmount) k)))
        \<longrightarrow> choosePlacement String' immuneCells floorRandom rawAmount =
              (fst (candidate floorRandom maxX_of (maxY_of String' rawAmount) 49),
               snd (candidate floorRandom maxX_of (maxY_of String' rawAmount) 49), 50))
   \<and> (\<not> inExcludeZone (candidate floorRandom maxX_of (maxY_of String' rawAmount) m)
        \<and> (\<forall>k < m. inExcludeZone (candidate floorRandom maxX_of (maxY_of String' rawAmount) k))
        \<longrightarrow> choosePlacement_v1 String' floorRandom rawAmount =
              Some (candidate floorRandom maxX_of (maxY_of String' rawAmount) m))"
proof -
  let ?c = "candidate floorRandom maxX_of (maxY_of String' rawAmount)"
  let ?ov = "wouldOverlapImmune String' immuneCells rawAmount"
  let ?res = "choosePlacement String' immuneCells floorRandom rawAmount"
  have "0 < maxAttempts" by (simp add: maxAttempts_def)
  from placementLoop_spec [OF this, of ?ov floorRandom maxX_of "maxY_of String' rawAmount"]
  obtain n where n:
    "?res = (fst (?c (n - 1)), snd (?c (n - 1)), n)"
    "0 < n" "n \<le> 50"
    "\<forall>k. k < n - 1 \<longrightarrow> ?ov (fst (?c k)) (snd (?c k))"
    "n < 50 \<longrightarrow> \<not> ?ov (fst (?c (n - 1))) (snd (?c (n - 1)))"
    unfolding choosePlacement_def maxAttempts_def by auto
  have A: "\<exists>x y n. ?res = (x, y, n)
      \<and> 1 \<le> n \<and> n \<le> 50 \<and> (x, y) = ?c (n - 1)
      \<and> (\<forall>k < n - 1. ?ov (fst (?c k)) (snd (?c k)))
      \<and> (n < 50 \<longrightarrow> \<not> ?ov x y)"
    using n by (intro exI [of _ "fst (?c (n - 1))"] exI [of _ "snd (?c (n - 1))"] exI [of _ n]) simp
  have B: "(\<forall>k < 50. ?ov (fst (?c k)) (snd (?c k)))
        \<longrightarrow> ?res = (fst (?c 49), snd (?c 49), 50)"
  proof
    assume all: "\<forall>k < 50. ?ov (fst (?c k)) (snd (?c k))"
    have "n = 50"
    proof (rule ccontr)
      assume "n \<noteq> 50"
      with n(3) have lt: "n < 50" by simp
      with n(2) have "n - 1 < 50" by simp
      with all have "?ov (fst (?c (n - 1))) (snd (?c (n - 1)))" by blast
      with n(5) lt show False by blast
    qed
    with n(1) show "?res = (fst (?c 49), snd (?c 49), 50)"
      by simp
  qed
  have C: "\<not> inExcludeZone (?c m) \<and> (\<forall>k < m. inExcludeZone (?c k))
        \<longrightarrow> choosePlacement_v1 String' floorRandom rawAmount = Some (?c m)"
    using placementLoop_v1_first [of floorRandom maxX_of "maxY_of String' rawAmount" 0 m]
    by (simp add: choosePlacement_v1_def)
  from A B C show ?thesis by (intro conjI)
qed

theorem placement_search_witness:
  "wouldOverlapImmune smallString [\<lparr>row = 46, col = 171\<rparr>] (Some (Num 5)) 46 169
   \<and> choosePlacement smallString [\<lparr>row = 46, col = 171\<rparr>] stuckRandom (Some (Num 5)) = (46, 169, 50)
   \<and> \<not> inExcludeZone (0, 0)
   \<and> choosePlacement_v1 smallString zeroRandom (Some (Num 5)) = Some (0, 0)"
proof -
  have "choosePlacement smallString [\<lparr>row = 46, col = 171\<rparr>] stuckRandom (Some (Num 5)) = (46, 169, 50)"
    using placement_search [of smallString "[\<lparr>row = 46, col = 171\<rparr>]" stuckRandom "Some (Num 5)" 0]
      overlap_at_stuck
    by (simp add: candidate_stuck)
  moreover have "choosePlacement_v1 smallString zeroRandom (Some (Num 5)) = Some (0, 0)"
    using placement_search [of smallString "[]" zeroRandom "Some (Num 5)" 0] origin_outside_zone
    by (simp add: candidate_zero)
  ultimately show ?thesis
    using overlap_at_stuck origin_outside_zone by blast
qed

text \<open>
  When every scaled draw is the largest it can be, every candidate of the older variant
  for a donation of 5 is \<open>(46, 169)\<close>, inside the zone: the search never returns.
\<close>

theorem placement_v1_never_returns:
  "choosePlacement_v1 smallString stuckRandom (Some (Num 5)) = None"
  unfolding choosePlacement_v1_def
  by (rule placementLoop_v1_stuck) (simp add: candidate_stuck stuck_in_zone)

section \<open>What the handlers stamp\<close>






































end
